theory Spec2Isabelle
  imports Main "HOL-Library.Word"
begin

section \<open>Constants of the sketch\<close>

text \<open>
  \<^verbatim>\<open>const uint8_t NUM_LEDS = 113;\<close> and the four light thresholds, all \<^verbatim>\<open>uint16_t\<close>.
  The two motion sensor pins are kept as the numbers the sketch gives them.
\<close>

definition NUM_LEDS :: "8 word" where
  "NUM_LEDS = 113"

definition PIN_UPPER_SENSOR :: "8 word" where
  "PIN_UPPER_SENSOR = 7"

definition PIN_LOWER_SENSOR :: "8 word" where
  "PIN_LOWER_SENSOR = 6"

definition THRESHOLD_NIGHT :: "16 word" where
  "THRESHOLD_NIGHT = 100"

definition THRESHOLD_MORNING :: "16 word" where
  "THRESHOLD_MORNING = 300"

definition THRESHOLD_DAY :: "16 word" where
  "THRESHOLD_DAY = 500"

definition THRESHOLD_EVENING :: "16 word" where
  "THRESHOLD_EVENING = 300"

section \<open>The mode\<close>

text \<open>
  \<^verbatim>\<open>enum class LedMode { NIGHT, MORNING, DAY, EVENING };\<close>
  The global \<^verbatim>\<open>mode\<close> holds a value of the enum's underlying integer type, so it can
  hold a number that is no enumerator; the \<^verbatim>\<open>default:\<close> branches of the sketch are
  for those. The stored value is therefore an integer, \<open>stored\<close> gives the number of an
  enumerator and \<open>enumerator\<close> reads a stored value back.
\<close>

datatype LedMode = NIGHT | MORNING | DAY | EVENING

fun stored :: "LedMode \<Rightarrow> int" where
  "stored NIGHT = 0"
| "stored MORNING = 1"
| "stored DAY = 2"
| "stored EVENING = 3"

definition enumerator :: "int \<Rightarrow> LedMode option" where
  "enumerator v =
     (if v = 0 then Some NIGHT
      else if v = 1 then Some MORNING
      else if v = 2 then Some DAY
      else if v = 3 then Some EVENING
      else None)"

text \<open>
  The \<^verbatim>\<open>switch (mode)\<close> of \<^verbatim>\<open>setLedMode\<close>, as a function of the value of \<^verbatim>\<open>mode\<close> at
  entry and of the light level; the result is the value of \<^verbatim>\<open>mode\<close> at the
  \<^verbatim>\<open>return\<close>. (\<^verbatim>\<open>setLedMode\<close> itself, which reads and writes the global, is defined
  from it below.) The cases MORNING and EVENING run their two \<^verbatim>\<open>if\<close> statements one after
  the other, as the sketch does. Comparisons are those of \<^verbatim>\<open>uint16_t\<close>.
\<close>

definition nextMode :: "int \<Rightarrow> 16 word \<Rightarrow> int" where
  "nextMode m lightLevel =
     (case enumerator m of
        Some NIGHT \<Rightarrow>
          (if lightLevel > THRESHOLD_MORNING then stored MORNING else m)
      | Some MORNING \<Rightarrow>
          (let m1 = (if lightLevel > THRESHOLD_DAY then stored DAY else m)
           in if lightLevel < THRESHOLD_NIGHT then stored NIGHT else m1)
      | Some DAY \<Rightarrow>
          (if lightLevel < THRESHOLD_EVENING then stored EVENING else m)
      | Some EVENING \<Rightarrow>
          (let m1 = (if lightLevel < THRESHOLD_NIGHT then stored NIGHT else m)
           in if lightLevel > THRESHOLD_DAY then stored DAY else m1)
      | None \<Rightarrow> stored NIGHT)"

text \<open>
  The modes the classifier goes through when it is called once for each reading of a
  list, starting from the stored mode \<open>m\<close>.
\<close>

fun modes_after :: "int \<Rightarrow> 16 word list \<Rightarrow> int list" where
  "modes_after m [] = []"
| "modes_after m (l # ls) = nextMode m l # modes_after (nextMode m l) ls"

section \<open>The strip, the sensors and the recorded behaviour\<close>

text \<open>
  \<^verbatim>\<open>CRGB leds[NUM_LEDS];\<close> A cell of the buffer is either black, as a zero-initialised
  global and \<^verbatim>\<open>FastLED.clear\<close> leave it, or the colour last assigned to it. Every
  assignment of the sketch has the form \<^verbatim>\<open>leds[led] = CHSV(hue, sat, val)\<close>; the
  conversion to red, green and blue is the library's, so the cell is represented by the
  \<^verbatim>\<open>CHSV\<close> value it was assigned.
\<close>

datatype CRGB = Black | CHSV (hue: "8 word") (sat: "8 word") (val: "8 word")

text \<open>The four animations of the sketch.\<close>

datatype animation = DoRainbow | LightsFromTop | LightsFromBottom | DoPink

text \<open>
  What the sketch does, in order: an animation is entered (recorded so that a theorem can
  say which animations ran), a pin is read (with the value read), the buffer is sent to
  the strip (\<^verbatim>\<open>FastLED.show()\<close>), the buffer is zeroed and sent (\<^verbatim>\<open>FastLED.clear(true)\<close>),
  time passes (\<^verbatim>\<open>delay(ms)\<close>).
\<close>

datatype event =
    Enter animation
  | DigitalRead "8 word" bool
  | AnalogRead "16 word"
  | Show "CRGB list"
  | ClearShow
  | Delay nat

text \<open>
  The inputs: the level of each digital pin and the value \<^verbatim>\<open>analogRead(PIN_AMBIENT)\<close>
  gives, both as functions of the time in milliseconds at which they are read.
\<close>

record sensors =
  digital :: "8 word \<Rightarrow> nat \<Rightarrow> bool"
  analog :: "nat \<Rightarrow> 16 word"

text \<open>
  The globals \<^verbatim>\<open>mode\<close> and \<^verbatim>\<open>leds\<close>, the milliseconds spent in \<^verbatim>\<open>delay\<close> so far
  (the time a sensor is read at; the time \<^verbatim>\<open>FastLED.show()\<close> takes is not counted), and
  the events so far, oldest first.
\<close>

record state =
  mode :: int
  leds :: "CRGB list"
  elapsed :: nat
  trace :: "event list"

definition emit :: "event \<Rightarrow> state \<Rightarrow> state" where
  "emit e s = s\<lparr>trace := trace s @ [e]\<rparr>"

definition delay :: "nat \<Rightarrow> state \<Rightarrow> state" where
  "delay ms s = emit (Delay ms) (s\<lparr>elapsed := elapsed s + ms\<rparr>)"

definition FastLED_show :: "state \<Rightarrow> state" where
  "FastLED_show s = emit (Show (leds s)) s"

definition FastLED_clear :: "state \<Rightarrow> state" where
  "FastLED_clear s = emit ClearShow (s\<lparr>leds := replicate (unat NUM_LEDS) Black\<rparr>)"

definition digitalRead :: "sensors \<Rightarrow> 8 word \<Rightarrow> state \<Rightarrow> bool \<times> state" where
  "digitalRead env pin s =
     (let v = digital env pin (elapsed s) in (v, emit (DigitalRead pin v) s))"

definition analogRead :: "sensors \<Rightarrow> state \<Rightarrow> 16 word \<times> state" where
  "analogRead env s = (let v = analog env (elapsed s) in (v, emit (AnalogRead v) s))"

text \<open>
  \<^verbatim>\<open>leds[led] = c\<close>. Every index the sketch uses is below \<^verbatim>\<open>NUM_LEDS\<close>; an index past
  the end of the list would leave the list as it is.
\<close>

definition set_led :: "nat \<Rightarrow> CRGB \<Rightarrow> state \<Rightarrow> state" where
  "set_led i c s = s\<lparr>leds := (leds s)[i := c]\<rparr>"

text \<open>
  The state at power-on: zero-initialised globals, so \<^verbatim>\<open>mode\<close> is 0 and the buffer is
  black. \<^verbatim>\<open>setup()\<close> (here \<open>setup_sketch\<close>, the name being a keyword of Isabelle) reads
  the light once (for the debug output), sets the mode to NIGHT and clears the strip.
\<close>

definition power_on :: state where
  "power_on = \<lparr>mode = 0, leds = replicate (unat NUM_LEDS) Black, elapsed = 0, trace = []\<rparr>"

definition setup_sketch :: "sensors \<Rightarrow> state \<Rightarrow> state" where
  "setup_sketch env s0 =
     (let (ambientLight, s1) = analogRead env s0;
          s2 = s1\<lparr>mode := stored NIGHT\<rparr>
      in FastLED_clear s2)"

section \<open>Loops over machine integers\<close>

lemma unat_succ_below: "(i :: 'a::len word) < bound \<Longrightarrow> unat (i + 1) = Suc (unat i)"
proof -
  assume "i < bound"
  then have "unat i < unat bound" by (simp add: word_less_nat_alt)
  moreover have "unat bound < 2 ^ LENGTH('a)" by (rule unsigned_less)
  ultimately have "unat i + 1 < 2 ^ LENGTH('a)" by linarith
  then show ?thesis by (simp add: unat_word_ariths unat_1)
qed

lemma unat_pred_above: "bound < (i :: 'a::len word) \<Longrightarrow> unat (i - 1) = unat i - 1"
proof -
  assume "bound < i"
  then have "i \<noteq> 0" by (auto simp: word_less_nat_alt)
  then show ?thesis by (rule unat_minus_one)
qed

text \<open>
  \<^verbatim>\<open>for (T i = from; i < bound; ++i) body\<close> on an unsigned \<open>T\<close>: the increment cannot
  wrap, since \<open>i < bound\<close>.
\<close>

function for_up :: "'a::len word \<Rightarrow> 'a word \<Rightarrow> ('a word \<Rightarrow> 's \<Rightarrow> 's) \<Rightarrow> 's \<Rightarrow> 's" where
  "for_up i bound body s = (if i < bound then for_up (i + 1) bound body (body i s) else s)"
  by pat_completeness auto
termination
  by (relation "measure (\<lambda>(i, bound, body, s). unat bound - unat i)")
     (auto simp: unat_succ_below word_less_nat_alt)

text \<open>
  \<^verbatim>\<open>for (T i = from; i > bound; --i) body\<close> on an unsigned \<open>T\<close>: the decrement cannot
  wrap, since \<open>i > bound\<close>.
\<close>

function for_down :: "'a::len word \<Rightarrow> 'a word \<Rightarrow> ('a word \<Rightarrow> 's \<Rightarrow> 's) \<Rightarrow> 's \<Rightarrow> 's" where
  "for_down i bound body s = (if i > bound then for_down (i - 1) bound body (body i s) else s)"
  by pat_completeness auto
termination
  by (relation "measure (\<lambda>(i, bound, body, s). unat i)")
     (auto simp: unat_pred_above word_less_nat_alt)

declare for_up.simps [simp del] for_down.simps [simp del]

section \<open>The animations\<close>

text \<open>\<^verbatim>\<open>const uint8_t hueFactor = 255 / NUM_LEDS;\<close>\<close>

definition hueFactor :: "8 word" where
  "hueFactor = 255 div NUM_LEDS"

text \<open>
  The inner loop that both fade-outs share:
  \<^verbatim>\<open>for (uint8_t led = 0; led < NUM_LEDS; ++led) leds[led] = CHSV(led * hueFactor, 255, brightness);\<close>
  The product is taken in \<^verbatim>\<open>int\<close> and stored in the \<^verbatim>\<open>uint8_t color\<close>, which is the
  product of 8-bit words.
\<close>

definition gradient_all :: "8 word \<Rightarrow> state \<Rightarrow> state" where
  "gradient_all brightness s =
     for_up 0 NUM_LEDS (\<lambda>led. set_led (unat led) (CHSV (led * hueFactor) 255 brightness)) s"

text \<open>
  The fade-out of \<^verbatim>\<open>lightsFromTop\<close> and \<^verbatim>\<open>lightsFromBottom\<close> (the same text in both):
  \<^verbatim>\<open>for (uint8_t brightness = 60; brightness > 0; --brightness) { ...; FastLED.show(); delay(20); }\<close>
\<close>

definition fade_out :: "state \<Rightarrow> state" where
  "fade_out s =
     for_down 60 0 (\<lambda>brightness s. delay 20 (FastLED_show (gradient_all brightness s))) s"

text \<open>
  The first loop of \<^verbatim>\<open>lightsFromTop\<close>:
  \<^verbatim>\<open>for (uint8_t length = 0; length < NUM_LEDS; ++length) {
    for (uint8_t led = 0; led < length; ++led) leds[led] = CHSV(led * hueFactor, 255, 60);
    FastLED.show(); delay(10); }\<close>
\<close>

definition fill_from_top :: "state \<Rightarrow> state" where
  "fill_from_top s =
     for_up 0 NUM_LEDS
       (\<lambda>length s. delay 10 (FastLED_show
          (for_up 0 length (\<lambda>led. set_led (unat led) (CHSV (led * hueFactor) 255 60)) s)))
       s"

definition lightsFromTop :: "state \<Rightarrow> state" where
  "lightsFromTop s0 =
     (let s1 = emit (Enter LightsFromTop) s0;
          s2 = fill_from_top s1;
          s3 = delay 40000 s2;
          s4 = fade_out s3
      in FastLED_clear s4)"

text \<open>
  The first loop of \<^verbatim>\<open>lightsFromBottom\<close>:
  \<^verbatim>\<open>for (uint8_t length = NUM_LEDS - 1; length > 0; --length) {
    for (uint8_t led = NUM_LEDS - 1; led > length; --led) leds[led] = CHSV(led * hueFactor, 255, 60);
    FastLED.show(); delay(10); }\<close>
\<close>

definition fill_from_bottom :: "state \<Rightarrow> state" where
  "fill_from_bottom s =
     for_down (NUM_LEDS - 1) 0
       (\<lambda>length s. delay 10 (FastLED_show
          (for_down (NUM_LEDS - 1) length
             (\<lambda>led. set_led (unat led) (CHSV (led * hueFactor) 255 60)) s)))
       s"

definition lightsFromBottom :: "state \<Rightarrow> state" where
  "lightsFromBottom s0 =
     (let s1 = emit (Enter LightsFromBottom) s0;
          s2 = fill_from_bottom s1;
          s3 = delay 40000 s2;
          s4 = fade_out s3
      in FastLED_clear s4)"

text \<open>
  \<^verbatim>\<open>doPink\<close>. Its two loops have the same body,
  \<^verbatim>\<open>for (uint8_t led = 0; led < NUM_LEDS; ++led) leds[led] = CHSV(200, 255, level);
  FastLED.show(); delay(20);\<close>
  The second starts at \<^verbatim>\<open>uint8_t level = brightness - 1\<close>: the difference is taken in
  \<^verbatim>\<open>int\<close> and stored in 8 bits, which is the subtraction of 8-bit words.
\<close>

definition pink_frame :: "8 word \<Rightarrow> state \<Rightarrow> state" where
  "pink_frame level s =
     delay 20 (FastLED_show
       (for_up 0 NUM_LEDS (\<lambda>led. set_led (unat led) (CHSV 200 255 level)) s))"

definition doPink :: "8 word \<Rightarrow> state \<Rightarrow> state" where
  "doPink brightness s0 =
     (let s1 = emit (Enter DoPink) s0;
          s2 = for_up 0 brightness pink_frame s1;
          s3 = delay 40000 s2;
          s4 = for_down (brightness - 1) 0 pink_frame s3
      in FastLED_clear s4)"

text \<open>
  \<^verbatim>\<open>doRainbow\<close>. The outer loop carries the local \<^verbatim>\<open>offset\<close> with the state. The counter
  is a \<^verbatim>\<open>long\<close> (32 bits on the AVR), \<^verbatim>\<open>led\<close> and \<^verbatim>\<open>offset\<close> are \<^verbatim>\<open>int\<close> (16 bits);
  they stay between 0 and 479, where signed and unsigned arithmetic agree.
\<close>

definition doRainbow :: "8 word \<Rightarrow> state \<Rightarrow> state" where
  "doRainbow brightness s0 =
     (let s1 = emit (Enter DoRainbow) s0;
          (offset, s2) =
            for_up (0 :: 32 word) 2000
              (\<lambda>counter (offset, s).
                 let s' = for_up (0 :: 16 word) (ucast NUM_LEDS)
                            (\<lambda>led. set_led (unat led)
                               (CHSV (ucast ((led * ucast hueFactor + offset) mod 256)) 255 brightness))
                            s;
                     s'' = delay 50 (FastLED_show s');
                     offset' = offset + 1
                 in (if offset' > 255 then 0 else offset', s''))
              (0 :: 16 word, s1)
      in FastLED_clear s2)"

section \<open>The routines and the dispatch loop\<close>

text \<open>
  \<^verbatim>\<open>setLedMode\<close> reads the global \<^verbatim>\<open>mode\<close>, assigns it and returns it.
\<close>

definition setLedMode :: "16 word \<Rightarrow> state \<Rightarrow> int \<times> state" where
  "setLedMode lightLevel s =
     (let m = nextMode (mode s) lightLevel in (m, s\<lparr>mode := m\<rparr>))"

text \<open>
  \<^verbatim>\<open>digitalRead(PIN_UPPER_SENSOR) || digitalRead(PIN_LOWER_SENSOR)\<close>: the lower sensor is
  read only when the upper one reads low.
\<close>

definition either_sensor :: "sensors \<Rightarrow> state \<Rightarrow> bool \<times> state" where
  "either_sensor env s =
     (let (upper, s1) = digitalRead env PIN_UPPER_SENSOR s
      in if upper then (True, s1) else digitalRead env PIN_LOWER_SENSOR s1)"

definition doDayRoutine :: "sensors \<Rightarrow> state \<Rightarrow> state" where
  "doDayRoutine env s0 =
     (let (motionDetected, s1) = either_sensor env s0
      in if motionDetected then delay 5000 (doPink 80 s1) else s1)"

definition doMorningRoutine :: "sensors \<Rightarrow> state \<Rightarrow> state" where
  "doMorningRoutine env s0 =
     (let (motionDetected, s1) = either_sensor env s0
      in if motionDetected then delay 5000 (doRainbow 250 s1) else s1)"

definition doNightRoutine :: "sensors \<Rightarrow> state \<Rightarrow> state" where
  "doNightRoutine env s0 =
     (let (motionUpperDetected, s1) = digitalRead env PIN_UPPER_SENSOR s0;
          (motionLowerDetected, s2) = digitalRead env PIN_LOWER_SENSOR s1;
          s3 = (if motionLowerDetected then delay 2500 (lightsFromBottom s2) else s2);
          s4 = (if motionUpperDetected then delay 2500 (lightsFromTop s3) else s3)
      in s4)"

definition doEveningRoutine :: "sensors \<Rightarrow> state \<Rightarrow> state" where
  "doEveningRoutine env s0 = doNightRoutine env s0"

text \<open>One pass of \<^verbatim>\<open>loop()\<close>.\<close>

definition loop :: "sensors \<Rightarrow> state \<Rightarrow> state" where
  "loop env s0 =
     (let (ambientLight, s1) = analogRead env s0;
          (m, s2) = setLedMode ambientLight s1
      in case enumerator m of
           Some MORNING \<Rightarrow> doDayRoutine env s2
         | Some DAY \<Rightarrow> doDayRoutine env s2
         | Some NIGHT \<Rightarrow> doNightRoutine env s2
         | Some EVENING \<Rightarrow> doEveningRoutine env s2
         | None \<Rightarrow> s2\<lparr>mode := stored NIGHT\<rparr>)"

section \<open>Reading the recorded behaviour\<close>

text \<open>
  The events that are not frames or delays: the animations entered and the pins read, in
  order.
\<close>

fun is_control :: "event \<Rightarrow> bool" where
  "is_control (Enter r) = True"
| "is_control (DigitalRead pin v) = True"
| "is_control (AnalogRead v) = True"
| "is_control (Show f) = False"
| "is_control ClearShow = False"
| "is_control (Delay ms) = False"

definition control_events :: "event list \<Rightarrow> event list" where
  "control_events es = filter is_control es"

text \<open>The same, of the events of a state.\<close>

definition ctl :: "state \<Rightarrow> event list" where
  "ctl s = control_events (trace s)"

text \<open>The frames sent to the strip, in order; \<^verbatim>\<open>FastLED.clear(true)\<close> sends a black one.\<close>

fun frame_of :: "event \<Rightarrow> CRGB list list" where
  "frame_of (Show f) = [f]"
| "frame_of ClearShow = [replicate (unat NUM_LEDS) Black]"
| "frame_of (Enter r) = []"
| "frame_of (DigitalRead pin v) = []"
| "frame_of (AnalogRead v) = []"
| "frame_of (Delay ms) = []"

definition frames_of :: "event list \<Rightarrow> CRGB list list" where
  "frames_of es = concat (map frame_of es)"

section \<open>The classifier\<close>

lemmas thresholds =
  THRESHOLD_NIGHT_def THRESHOLD_MORNING_def THRESHOLD_DAY_def THRESHOLD_EVENING_def

lemma enumerator_stored [simp]: "enumerator (stored md) = Some md"
  by (cases md) (simp_all add: enumerator_def)

lemma stored_enumerator: "enumerator v = Some md \<Longrightarrow> stored md = v"
  by (auto simp: enumerator_def split: if_splits)

lemma nextMode_NIGHT:
  "nextMode (stored NIGHT) l = stored (if 300 < l then MORNING else NIGHT)"
  by (simp add: nextMode_def enumerator_def thresholds)

lemma word16_lt_100_not_gt_500: "(l :: 16 word) < 100 \<Longrightarrow> \<not> 500 < l"
  by (simp add: word_less_nat_alt)

lemma nextMode_MORNING:
  "nextMode (stored MORNING) l =
     stored (if 500 < l then DAY else if l < 100 then NIGHT else MORNING)"
  using word16_lt_100_not_gt_500 [of l]
  by (auto simp: nextMode_def enumerator_def thresholds Let_def)

lemma nextMode_DAY:
  "nextMode (stored DAY) l = stored (if l < 300 then EVENING else DAY)"
  by (simp add: nextMode_def enumerator_def thresholds)

lemma nextMode_EVENING:
  "nextMode (stored EVENING) l =
     stored (if l < 100 then NIGHT else if 500 < l then DAY else EVENING)"
  using word16_lt_100_not_gt_500 [of l]
  by (auto simp: nextMode_def enumerator_def thresholds Let_def)

lemma nextMode_default: "enumerator m = None \<Longrightarrow> nextMode m l = stored NIGHT"
  by (simp add: nextMode_def)

lemma nextMode_valid: "\<exists>md. nextMode m l = stored md"
proof (cases "enumerator m")
  case None
  then have "nextMode m l = stored NIGHT" by (rule nextMode_default)
  then show ?thesis by blast
next
  case (Some md)
  then have m: "m = stored md" by (simp add: stored_enumerator)
  show ?thesis
    unfolding m
    by (cases md) (auto simp only: nextMode_NIGHT nextMode_MORNING nextMode_DAY nextMode_EVENING)
qed

lemma stored_inject [simp]: "stored a = stored b \<longleftrightarrow> a = b"
  by (cases a; cases b) simp_all

lemma setLedMode_eq:
  "setLedMode l s = (nextMode (mode s) l, s\<lparr>mode := nextMode (mode s) l\<rparr>)"
  by (simp add: setLedMode_def Let_def)

lemma length_modes_after: "length (modes_after m ls) = length ls"
  by (induction ls arbitrary: m) simp_all

text \<open>
  C1. \<^verbatim>\<open>setLedMode\<close> is this transition function, for every light level: from NIGHT to
  MORNING when the level is above 300, else NIGHT; from MORNING to DAY above 500, to NIGHT
  below 100, else MORNING; from DAY to EVENING below 300, else DAY; from EVENING to NIGHT
  below 100, to DAY above 500, else EVENING; from a stored value that is no enumerator to
  NIGHT. So the result is always one of the four modes. The routine returns this value
  and leaves it in \<^verbatim>\<open>mode\<close>.
\<close>

theorem setLedMode_transition_function:
  "nextMode (stored NIGHT) l = stored (if l > 300 then MORNING else NIGHT)
   \<and> nextMode (stored MORNING) l =
       stored (if l > 500 then DAY else if l < 100 then NIGHT else MORNING)
   \<and> nextMode (stored DAY) l = stored (if l < 300 then EVENING else DAY)
   \<and> nextMode (stored EVENING) l =
       stored (if l < 100 then NIGHT else if l > 500 then DAY else EVENING)
   \<and> (enumerator m = None \<longrightarrow> nextMode m l = stored NIGHT)
   \<and> (\<exists>md. nextMode m l = stored md)
   \<and> setLedMode l s = (nextMode (mode s) l, s\<lparr>mode := nextMode (mode s) l\<rparr>)"
  using nextMode_NIGHT [of l] nextMode_MORNING [of l] nextMode_DAY [of l]
    nextMode_EVENING [of l] nextMode_default [of m l] nextMode_valid [of m l]
    setLedMode_eq [of l s]
  by blast

theorem setLedMode_transition_function_witness:
  "enumerator 7 = None \<and> nextMode 7 50 = stored NIGHT
   \<and> nextMode (stored MORNING) 501 = stored DAY"
proof -
  have h: "enumerator 7 = None" by (simp add: enumerator_def)
  from setLedMode_transition_function [where m = 7 and l = 50]
  have "enumerator 7 = None \<longrightarrow> nextMode 7 50 = stored NIGHT" by blast
  moreover from setLedMode_transition_function [where l = 501]
  have "nextMode (stored MORNING) 501 = stored DAY" by simp
  ultimately show ?thesis using h by blast
qed

text \<open>
  C2, as the sketch has it. At exactly 300 NIGHT stays NIGHT: for every level, NIGHT
  goes to MORNING exactly when the level is above 300 and stays NIGHT exactly when it is
  at most 300. At exactly 100 MORNING stays MORNING: for every level, MORNING falls back
  to NIGHT exactly when the level is below 100, so 99 is the highest level that does it,
  and stays MORNING exactly when the level is from 100 to 500.
\<close>

theorem setLedMode_boundaries:
  "nextMode (stored NIGHT) 300 = stored NIGHT
   \<and> nextMode (stored MORNING) 100 = stored MORNING
   \<and> nextMode (stored MORNING) 99 = stored NIGHT
   \<and> (nextMode (stored NIGHT) l = stored MORNING \<longleftrightarrow> 300 < l)
   \<and> (nextMode (stored NIGHT) l = stored NIGHT \<longleftrightarrow> l \<le> 300)
   \<and> (nextMode (stored MORNING) l = stored NIGHT \<longleftrightarrow> l < 100)
   \<and> (nextMode (stored MORNING) l = stored MORNING \<longleftrightarrow> 100 \<le> l \<and> l \<le> 500)"
proof -
  have closed: "nextMode (stored NIGHT) 300 = stored NIGHT
      \<and> nextMode (stored MORNING) 100 = stored MORNING
      \<and> nextMode (stored MORNING) 99 = stored NIGHT"
    by (simp add: nextMode_def enumerator_def thresholds)
  have n1: "nextMode (stored NIGHT) l = stored MORNING \<longleftrightarrow> 300 < l"
    by (simp only: nextMode_NIGHT stored_inject) simp
  have n2: "nextMode (stored NIGHT) l = stored NIGHT \<longleftrightarrow> l \<le> 300"
    by (simp only: nextMode_NIGHT stored_inject) auto
  have m1: "nextMode (stored MORNING) l = stored NIGHT \<longleftrightarrow> l < 100"
    using word16_lt_100_not_gt_500 [of l]
    by (simp only: nextMode_MORNING stored_inject) auto
  have m2: "nextMode (stored MORNING) l = stored MORNING \<longleftrightarrow> 100 \<le> l \<and> l \<le> 500"
    by (simp only: nextMode_MORNING stored_inject) auto
  from closed n1 n2 m1 m2 show ?thesis by blast
qed

text \<open>
  C2 as stated fails in its second half: from MORNING, a level of exactly 100 does not
  give NIGHT.
\<close>

theorem setLedMode_morning_100_not_night:
  "nextMode (stored MORNING) 100 \<noteq> stored NIGHT"
  by (simp add: nextMode_def enumerator_def thresholds)

text \<open>
  C7. Hysteresis: starting in DAY, readings that are each 350 or 450 never give a mode
  other than DAY, however many there are; starting in EVENING, they never give a mode
  other than EVENING.
\<close>

theorem setLedMode_hysteresis:
  "set ls \<subseteq> {350, 450} \<Longrightarrow>
     set (modes_after (stored DAY) ls) \<subseteq> {stored DAY}
     \<and> set (modes_after (stored EVENING) ls) \<subseteq> {stored EVENING}
     \<and> length (modes_after (stored DAY) ls) = length ls
     \<and> length (modes_after (stored EVENING) ls) = length ls"
proof (induction ls)
  case Nil
  show ?case by simp
next
  case (Cons l ls)
  then have l: "l = 350 \<or> l = 450" and rest: "set ls \<subseteq> {350, 450}"
    by simp_all
  from l have day: "nextMode (stored DAY) l = stored DAY"
    by (auto simp only: nextMode_DAY) simp_all
  from l have evening: "nextMode (stored EVENING) l = stored EVENING"
    by (auto simp only: nextMode_EVENING) simp_all
  have "modes_after (stored DAY) (l # ls) = stored DAY # modes_after (stored DAY) ls"
    and "modes_after (stored EVENING) (l # ls) = stored EVENING # modes_after (stored EVENING) ls"
    by (simp_all only: modes_after.simps day evening)
  with Cons.IH [OF rest] show ?case
    by (simp del: stored.simps)
qed

theorem setLedMode_hysteresis_witness:
  "set [350, 450, 350, 450 :: 16 word] \<subseteq> {350, 450}
   \<and> set (modes_after (stored DAY) [350, 450, 350, 450]) \<subseteq> {stored DAY}
   \<and> set (modes_after (stored EVENING) [350, 450, 350, 450]) \<subseteq> {stored EVENING}"
proof -
  have h: "set [350, 450, 350, 450 :: 16 word] \<subseteq> {350, 450}" by simp
  from setLedMode_hysteresis [OF h] h show ?thesis by blast
qed

section \<open>Loops as folds\<close>

text \<open>
  A counting loop runs its body once for each value its counter takes, in order: the
  numbers from \<open>i\<close> up to \<open>bound - 1\<close> for \<open>for_up\<close>, from \<open>i\<close> down to \<open>bound + 1\<close> for
  \<open>for_down\<close>. Everything below is proved about these lists.
\<close>

lemma for_up_fold:
  "for_up i bound body s = fold body (map of_nat [unat i..<unat bound]) s"
proof (induction i bound body s rule: for_up.induct)
  case (1 i bound body s)
  show ?case
  proof (cases "i < bound")
    case True
    then have lt: "unat i < unat bound" by (simp add: word_less_nat_alt)
    have "[unat i..<unat bound] = unat i # [unat (i + 1)..<unat bound]"
      using lt by (simp add: upt_conv_Cons unat_succ_below [OF True])
    with True "1.IH" show ?thesis
      by (subst for_up.simps) simp
  next
    case False
    then have "unat bound \<le> unat i" by (simp add: word_less_nat_alt)
    with False show ?thesis by (subst for_up.simps) simp
  qed
qed

lemma for_down_fold:
  "for_down i bound body s = fold body (map of_nat (rev [Suc (unat bound)..<Suc (unat i)])) s"
proof (induction i bound body s rule: for_down.induct)
  case (1 i bound body s)
  show ?case
  proof (cases "bound < i")
    case True
    then have lt: "unat bound < unat i" by (simp add: word_less_nat_alt)
    then have "Suc (unat (i - 1)) = unat i" by (simp add: unat_pred_above [OF True])
    then have "[Suc (unat bound)..<Suc (unat i)] = [Suc (unat bound)..<Suc (unat (i - 1))] @ [unat i]"
      using lt by simp
    with True "1.IH" show ?thesis
      by (subst for_down.simps) simp
  next
    case False
    then have "unat i \<le> unat bound" by (simp add: word_less_nat_alt)
    with False show ?thesis by (subst for_down.simps) simp
  qed
qed

section \<open>What the loops of the animations do to the buffer\<close>

text \<open>
  \<open>paint_fold\<close>: a loop of assignments \<^verbatim>\<open>leds[led] = g(led)\<close> over a list of indices
  changes exactly the cells at those indices. \<open>frame_loop\<close>: a loop whose body repaints
  the whole buffer, shows it and waits. \<open>grow_loop\<close>: a loop whose body paints some cells,
  with a colour that depends on the cell only, shows the buffer and waits; what a frame
  holds is what all the passes so far have painted.
\<close>

lemma unat_of_nat_8: "i < 256 \<Longrightarrow> unat (of_nat i :: 8 word) = i"
  by (simp add: unat_of_nat)

lemma paint_fold:
  "\<forall>i\<in>set idxs. i < 256 \<Longrightarrow>
   fold (\<lambda>led :: 8 word. set_led (unat led) (g led)) (map of_nat idxs) s =
     s\<lparr>leds := map (\<lambda>j. if j \<in> set idxs then g (of_nat j) else leds s ! j)
                   [0..<length (leds s)]\<rparr>"
proof (induction idxs arbitrary: s)
  case Nil
  show ?case by (simp add: map_nth)
next
  case (Cons i idxs)
  then have i: "unat (of_nat i :: 8 word) = i" and rest: "\<forall>i\<in>set idxs. i < 256"
    by (simp_all add: unat_of_nat_8)
  let ?s' = "set_led i (g (of_nat i)) s"
  have "fold (\<lambda>led :: 8 word. set_led (unat led) (g led)) (map of_nat (i # idxs)) s =
        fold (\<lambda>led :: 8 word. set_led (unat led) (g led)) (map of_nat idxs) ?s'"
    by (simp add: i)
  also have "\<dots> = ?s'\<lparr>leds := map (\<lambda>j. if j \<in> set idxs then g (of_nat j) else leds ?s' ! j)
                   [0..<length (leds ?s')]\<rparr>"
    by (rule Cons.IH [OF rest])
  also have "\<dots> = s\<lparr>leds := map (\<lambda>j. if j \<in> set (i # idxs) then g (of_nat j) else leds s ! j)
                   [0..<length (leds s)]\<rparr>"
    by (auto simp: set_led_def nth_list_update)
  finally show ?case .
qed

lemma frame_loop:
  assumes fill: "\<And>x s. length (leds s) = n \<Longrightarrow> fill x s = s\<lparr>leds := F x\<rparr>"
    and len: "\<And>x. length (F x) = n"
  shows "length (leds s) = n \<Longrightarrow>
    fold (\<lambda>x s. delay d (FastLED_show (fill x s))) xs s =
      s\<lparr>leds := (if xs = [] then leds s else F (last xs)),
        elapsed := elapsed s + d * length xs,
        trace := trace s @ concat (map (\<lambda>x. [Show (F x), Delay d]) xs)\<rparr>"
proof (induction xs arbitrary: s)
  case Nil
  show ?case by simp
next
  case (Cons x xs)
  let ?s' = "delay d (FastLED_show (fill x s))"
  have s': "?s' = s\<lparr>leds := F x, elapsed := elapsed s + d, trace := trace s @ [Show (F x), Delay d]\<rparr>"
    by (simp add: fill [OF Cons.prems] delay_def FastLED_show_def emit_def)
  then have "length (leds ?s') = n" by (simp add: len)
  from Cons.IH [OF this] show ?case
    by (simp add: s')
qed

lemma grow_loop:
  assumes fill: "\<And>x s. fill x s =
      s\<lparr>leds := map (\<lambda>j. if j \<in> A x then g j else leds s ! j) [0..<length (leds s)]\<rparr>"
  shows "fold (\<lambda>x s. delay d (FastLED_show (fill x s))) xs s =
      s\<lparr>leds := map (\<lambda>j. if j \<in> (\<Union>x\<in>set xs. A x) then g j else leds s ! j)
                  [0..<length (leds s)],
        elapsed := elapsed s + d * length xs,
        trace := trace s @ concat (map (\<lambda>i.
           [Show (map (\<lambda>j. if j \<in> (\<Union>x\<in>set (take (Suc i) xs). A x) then g j else leds s ! j)
                    [0..<length (leds s)]), Delay d]) [0..<length xs])\<rparr>"
proof -
  define F where
    "F ys = map (\<lambda>j. if j \<in> (\<Union>x\<in>set ys. A x) then g j else leds s ! j) [0..<length (leds s)]"
    for ys
  have F_Nil: "F [] = leds s" by (simp add: F_def map_nth)
  have F_len: "length (F ys) = length (leds s)" for ys by (simp add: F_def)
  have F_snoc: "map (\<lambda>j. if j \<in> A x then g j else F ys ! j) [0..<length (leds s)] = F (ys @ [x])"
    for x ys by (auto simp: F_def)
  have main: "fold (\<lambda>x s. delay d (FastLED_show (fill x s))) xs s =
      s\<lparr>leds := F xs, elapsed := elapsed s + d * length xs,
        trace := trace s @ concat (map (\<lambda>i. [Show (F (take (Suc i) xs)), Delay d]) [0..<length xs])\<rparr>"
  proof (induction xs rule: rev_induct)
    case Nil
    show ?case by (simp add: F_Nil)
  next
    case (snoc x xs)
    have old: "map (\<lambda>i. [Show (F (take (Suc i) (xs @ [x]))), Delay d]) [0..<length xs] =
               map (\<lambda>i. [Show (F (take (Suc i) xs)), Delay d]) [0..<length xs]"
      by (rule map_cong) simp_all
    let ?body = "\<lambda>x s. delay d (FastLED_show (fill x s))"
    have "fold ?body (xs @ [x]) s = delay d (FastLED_show (fill x (fold ?body xs s)))"
      by simp
    also have "\<dots> = delay d (FastLED_show (fill x
        (s\<lparr>leds := F xs, elapsed := elapsed s + d * length xs,
          trace := trace s @
            concat (map (\<lambda>i. [Show (F (take (Suc i) xs)), Delay d]) [0..<length xs])\<rparr>)))"
      by (simp only: snoc.IH)
    also have "\<dots> = s\<lparr>leds := F (xs @ [x]), elapsed := elapsed s + d * length (xs @ [x]),
        trace := trace s @ concat (map (\<lambda>i. [Show (F (take (Suc i) (xs @ [x]))), Delay d])
                                    [0..<length (xs @ [x])])\<rparr>"
      by (simp add: fill F_len F_snoc delay_def FastLED_show_def emit_def old
          cong: if_cong del: take_append)
    finally show ?case .
  qed
  show ?thesis using main unfolding F_def .
qed

lemma unat_NUM_LEDS: "unat NUM_LEDS = 113"
  by (simp add: NUM_LEDS_def)

lemma unat_NUM_LEDS_pred: "unat (NUM_LEDS - 1) = 112"
  by (simp add: NUM_LEDS_def)

lemma top_inner:
  "for_up 0 len (\<lambda>led :: 8 word. set_led (unat led) (g led)) s =
     s\<lparr>leds := map (\<lambda>j. if j \<in> {j. j < unat len} then g (of_nat j) else leds s ! j)
                   [0..<length (leds s)]\<rparr>"
proof -
  have "unat len < 256" using unsigned_less [of len] by simp
  then have "\<forall>i\<in>set [0..<unat len]. i < 256" by simp
  from paint_fold [OF this, of g s] show ?thesis
    by (simp add: for_up_fold)
qed

lemma bottom_inner:
  "for_down (NUM_LEDS - 1) len (\<lambda>led :: 8 word. set_led (unat led) (g led)) s =
     s\<lparr>leds := map (\<lambda>j. if j \<in> {j. unat len < j \<and> j < 113} then g (of_nat j) else leds s ! j)
                   [0..<length (leds s)]\<rparr>"
proof -
  have "\<forall>i\<in>set (rev [Suc (unat len)..<113]). i < 256" by simp
  from paint_fold [OF this, of g s] show ?thesis
    by (simp add: for_down_fold unat_NUM_LEDS_pred Suc_le_eq cong: if_cong)
qed

lemma lit_from_top:
  "k \<le> 256 \<Longrightarrow> (\<Union>x\<in>set (map of_nat [0..<k] :: 8 word list). {j. j < unat x}) = {j. Suc j < k}"
proof -
  assume k: "k \<le> 256"
  have "(\<Union>x\<in>set (map of_nat [0..<k] :: 8 word list). {j. j < unat x}) =
        (\<Union>i\<in>{0..<k}. {j. j < unat (of_nat i :: 8 word)})"
    by simp
  also have "\<dots> = (\<Union>i\<in>{0..<k}. {j. j < i})"
    using k by (intro SUP_cong refl) (simp add: unat_of_nat_8)
  also have "\<dots> = {j. Suc j < k}"
    by auto
  finally show ?thesis .
qed

lemma lit_from_bottom:
  "m \<le> 112 \<Longrightarrow>
   (\<Union>x\<in>set (map of_nat (rev [m..<113]) :: 8 word list). {j. unat x < j \<and> j < 113}) =
     {j. m < j \<and> j < 113}"
proof -
  assume m: "m \<le> 112"
  have "(\<Union>x\<in>set (map of_nat (rev [m..<113]) :: 8 word list). {j. unat x < j \<and> j < 113}) =
        (\<Union>i\<in>{m..<113}. {j. unat (of_nat i :: 8 word) < j \<and> j < 113})"
    by simp
  also have "\<dots> = (\<Union>i\<in>{m..<113}. {j. i < j \<and> j < 113})"
    by (intro SUP_cong refl) (simp add: unat_of_nat_8)
  also have "\<dots> = {j. m < j \<and> j < 113}"
  proof (intro set_eqI iffI)
    fix j assume "j \<in> {j. m < j \<and> j < 113}"
    then have "m \<in> {m..<113}" and "j \<in> {j. m < j \<and> j < 113}" using m by simp_all
    then show "j \<in> (\<Union>i\<in>{m..<113}. {j. i < j \<and> j < 113})" by blast
  qed auto
  finally show ?thesis .
qed

lemma take_top_lengths:
  "i < 113 \<Longrightarrow>
   (\<Union>x\<in>set (take (Suc i) (map of_nat [0..<113] :: 8 word list)). {j. j < unat x}) = {j. j < i}"
proof -
  assume i: "i < 113"
  then have "take (Suc i) (map of_nat [0..<113] :: 8 word list) = map of_nat [0..<Suc i]"
    by (simp only: take_map) (simp add: take_upt)
  moreover have "Suc i \<le> 256" using i by simp
  ultimately show ?thesis by (simp only: lit_from_top) simp
qed

lemma take_bottom_lengths:
  "i < 112 \<Longrightarrow>
   (\<Union>x\<in>set (take (Suc i) (map of_nat (rev [Suc 0..<113]) :: 8 word list)).
      {j. unat x < j \<and> j < 113}) = {j. 112 - i < j \<and> j < 113}"
proof -
  assume i: "i < 112"
  then have "Suc (111 - i) = 112 - i" by simp
  then have "take (Suc i) (rev [Suc 0..<113]) = rev [112 - i..<113]"
    by (simp add: take_rev)
  then have "take (Suc i) (map of_nat (rev [Suc 0..<113]) :: 8 word list) =
             map of_nat (rev [112 - i..<113])"
    by (simp only: take_map)
  moreover have "112 - i \<le> 112" by simp
  ultimately show ?thesis by (simp only: lit_from_bottom)
qed

lemma fill_from_top_eq:
  "fill_from_top s =
     s\<lparr>leds := map (\<lambda>j. if j < 112 then CHSV (of_nat j * hueFactor) 255 60 else leds s ! j)
                   [0..<length (leds s)],
       elapsed := elapsed s + 1130,
       trace := trace s @ concat (map (\<lambda>L.
          [Show (map (\<lambda>j. if j < L then CHSV (of_nat j * hueFactor) 255 60 else leds s ! j)
                   [0..<length (leds s)]), Delay 10]) [0..<113])\<rparr>"
proof -
  let ?g = "\<lambda>j. CHSV (of_nat j * hueFactor) 255 60"
  let ?xs = "map of_nat [0..<113] :: 8 word list"
  have frames: "map (\<lambda>i. [Show (map (\<lambda>j. if j \<in> (\<Union>x\<in>set (take (Suc i) ?xs). {j. j < unat x})
                                       then ?g j else leds s ! j) [0..<length (leds s)]), Delay 10])
                  [0..<113] =
                map (\<lambda>L. [Show (map (\<lambda>j. if j < L then ?g j else leds s ! j)
                                    [0..<length (leds s)]), Delay 10]) [0..<113]"
    by (rule map_cong) (simp_all only: take_top_lengths atLeastLessThan_iff set_upt mem_Collect_eq)
  have final: "(\<Union>x\<in>set ?xs. {j. j < unat x}) = {j. j < 112}"
    using lit_from_top [of 113] by simp
  have "fill_from_top s =
        fold (\<lambda>len s. delay 10 (FastLED_show
               (for_up 0 len (\<lambda>led. set_led (unat led) (CHSV (led * hueFactor) 255 60)) s)))
          ?xs s"
    by (simp add: fill_from_top_def for_up_fold unat_NUM_LEDS)
  also have "\<dots> = s\<lparr>leds := map (\<lambda>j. if j \<in> (\<Union>x\<in>set ?xs. {j. j < unat x}) then ?g j else leds s ! j)
                  [0..<length (leds s)],
        elapsed := elapsed s + 10 * length ?xs,
        trace := trace s @ concat (map (\<lambda>i.
           [Show (map (\<lambda>j. if j \<in> (\<Union>x\<in>set (take (Suc i) ?xs). {j. j < unat x}) then ?g j else leds s ! j)
                    [0..<length (leds s)]), Delay 10]) [0..<length ?xs])\<rparr>"
    by (rule grow_loop) (rule top_inner)
  also have "\<dots> = s\<lparr>leds := map (\<lambda>j. if j < 112 then ?g j else leds s ! j) [0..<length (leds s)],
       elapsed := elapsed s + 1130,
       trace := trace s @ concat (map (\<lambda>L.
          [Show (map (\<lambda>j. if j < L then ?g j else leds s ! j) [0..<length (leds s)]), Delay 10])
          [0..<113])\<rparr>"
  proof -
    have len: "length ?xs = 113" by simp
    show ?thesis by (simp only: len frames final) simp
  qed
  finally show ?thesis .
qed

lemma fill_from_bottom_eq:
  "fill_from_bottom s =
     s\<lparr>leds := map (\<lambda>j. if 1 < j \<and> j < 113 then CHSV (of_nat j * hueFactor) 255 60
                         else leds s ! j) [0..<length (leds s)],
       elapsed := elapsed s + 1120,
       trace := trace s @ concat (map (\<lambda>i.
          [Show (map (\<lambda>j. if 112 - i < j \<and> j < 113 then CHSV (of_nat j * hueFactor) 255 60
                           else leds s ! j) [0..<length (leds s)]), Delay 10]) [0..<112])\<rparr>"
proof -
  let ?g = "\<lambda>j. CHSV (of_nat j * hueFactor) 255 60"
  let ?xs = "map of_nat (rev [Suc 0..<113]) :: 8 word list"
  let ?A = "\<lambda>x :: 8 word. {j. unat x < j \<and> j < 113}"
  have frames: "map (\<lambda>i. [Show (map (\<lambda>j. if j \<in> (\<Union>x\<in>set (take (Suc i) ?xs). ?A x)
                                       then ?g j else leds s ! j) [0..<length (leds s)]), Delay 10])
                  [0..<112] =
                map (\<lambda>i. [Show (map (\<lambda>j. if 112 - i < j \<and> j < 113 then ?g j else leds s ! j)
                                    [0..<length (leds s)]), Delay 10]) [0..<112]"
    by (rule map_cong) (simp_all only: take_bottom_lengths atLeastLessThan_iff set_upt mem_Collect_eq)
  have final: "(\<Union>x\<in>set ?xs. ?A x) = {j. 1 < j \<and> j < 113}"
    using lit_from_bottom [of 1] by simp
  have "fill_from_bottom s =
        fold (\<lambda>len s. delay 10 (FastLED_show
               (for_down (NUM_LEDS - 1) len
                  (\<lambda>led. set_led (unat led) (CHSV (led * hueFactor) 255 60)) s)))
          ?xs s"
    by (simp add: fill_from_bottom_def for_down_fold unat_NUM_LEDS_pred)
  also have "\<dots> = s\<lparr>leds := map (\<lambda>j. if j \<in> (\<Union>x\<in>set ?xs. ?A x) then ?g j else leds s ! j)
                  [0..<length (leds s)],
        elapsed := elapsed s + 10 * length ?xs,
        trace := trace s @ concat (map (\<lambda>i.
           [Show (map (\<lambda>j. if j \<in> (\<Union>x\<in>set (take (Suc i) ?xs). ?A x) then ?g j else leds s ! j)
                    [0..<length (leds s)]), Delay 10]) [0..<length ?xs])\<rparr>"
    by (rule grow_loop) (rule bottom_inner)
  also have "\<dots> = s\<lparr>leds := map (\<lambda>j. if 1 < j \<and> j < 113 then ?g j else leds s ! j)
                  [0..<length (leds s)],
       elapsed := elapsed s + 1120,
       trace := trace s @ concat (map (\<lambda>i.
          [Show (map (\<lambda>j. if 112 - i < j \<and> j < 113 then ?g j else leds s ! j)
                   [0..<length (leds s)]), Delay 10]) [0..<112])\<rparr>"
  proof -
    have len: "length ?xs = 112" by simp
    show ?thesis by (simp only: len frames final) simp
  qed
  finally show ?thesis .
qed

section \<open>The animations as state changes\<close>

text \<open>
  Each animation, on a buffer of \<^verbatim>\<open>NUM_LEDS\<close> cells, as one update of the state: the
  buffer it leaves, the time it takes and the events it adds.
\<close>

lemma all_inner:
  "length (leds s) = 113 \<Longrightarrow>
   for_up 0 NUM_LEDS (\<lambda>led :: 8 word. set_led (unat led) (g led)) s =
     s\<lparr>leds := map (\<lambda>j. g (of_nat j)) [0..<113]\<rparr>"
  by (simp add: top_inner unat_NUM_LEDS cong: map_cong)

lemma gradient_all_eq:
  "length (leds s) = 113 \<Longrightarrow>
   gradient_all b s = s\<lparr>leds := map (\<lambda>j. CHSV (of_nat j * hueFactor) 255 b) [0..<113]\<rparr>"
  by (simp add: gradient_all_def all_inner)

lemma fade_out_eq:
  "length (leds s) = 113 \<Longrightarrow>
   fade_out s =
     s\<lparr>leds := map (\<lambda>j. CHSV (of_nat j * hueFactor) 255 1) [0..<113],
       elapsed := elapsed s + 1200,
       trace := trace s @ concat (map (\<lambda>b.
          [Show (map (\<lambda>j. CHSV (of_nat j * hueFactor) 255 (of_nat b)) [0..<113]), Delay 20])
          (rev [1..<61]))\<rparr>"
proof -
  assume len: "length (leds s) = 113"
  let ?F = "\<lambda>b :: 8 word. map (\<lambda>j. CHSV (of_nat j * hueFactor) 255 b) [0..<113]"
  let ?xs = "map of_nat (rev [Suc 0..<61]) :: 8 word list"
  have last: "last ?xs = 1" by (simp add: last_map last_rev)
  have ne: "?xs \<noteq> []" by simp
  have "fade_out s = fold (\<lambda>b s. delay 20 (FastLED_show (gradient_all b s))) ?xs s"
    by (simp add: fade_out_def for_down_fold)
  also have "\<dots> = s\<lparr>leds := (if ?xs = [] then leds s else ?F (last ?xs)),
        elapsed := elapsed s + 20 * length ?xs,
        trace := trace s @ concat (map (\<lambda>x. [Show (?F x), Delay 20]) ?xs)\<rparr>"
    by (rule frame_loop [where n = 113, OF _ _ len]) (simp_all add: gradient_all_eq)
  also have "\<dots> = s\<lparr>leds := ?F 1, elapsed := elapsed s + 1200,
       trace := trace s @ concat (map (\<lambda>b. [Show (?F (of_nat b)), Delay 20]) (rev [1..<61]))\<rparr>"
    by (simp only: last ne if_False) (simp add: comp_def rev_map)
  finally show ?thesis .
qed

lemma pink_loop:
  "length (leds s) = 113 \<Longrightarrow>
   fold pink_frame (map of_nat ls) s =
     s\<lparr>leds := (if ls = [] then leds s else replicate 113 (CHSV 200 255 (of_nat (last ls)))),
       elapsed := elapsed s + 20 * length ls,
       trace := trace s @ concat (map (\<lambda>l.
          [Show (replicate 113 (CHSV 200 255 (of_nat l))), Delay 20]) ls)\<rparr>"
proof -
  assume len: "length (leds s) = 113"
  let ?F = "\<lambda>l :: 8 word. replicate 113 (CHSV 200 255 l)"
  let ?fill = "\<lambda>level :: 8 word.
     for_up 0 NUM_LEDS (\<lambda>led :: 8 word. set_led (unat led) (CHSV 200 255 level))"
  let ?xs = "map of_nat ls :: 8 word list"
  have fill: "\<And>x s. length (leds s) = 113 \<Longrightarrow> ?fill x s = s\<lparr>leds := ?F x\<rparr>"
    by (simp add: all_inner map_replicate_const)
  have "pink_frame = (\<lambda>l s. delay 20 (FastLED_show (?fill l s)))"
    by (intro ext) (simp add: pink_frame_def)
  then have "fold pink_frame ?xs s = fold (\<lambda>l s. delay 20 (FastLED_show (?fill l s))) ?xs s"
    by simp
  also have "\<dots> = s\<lparr>leds := (if ?xs = [] then leds s else ?F (last ?xs)),
        elapsed := elapsed s + 20 * length ?xs,
        trace := trace s @ concat (map (\<lambda>x. [Show (?F x), Delay 20]) ?xs)\<rparr>"
    by (rule frame_loop [where n = 113, OF fill _ len]) simp_all
  also have "\<dots> = s\<lparr>leds := (if ls = [] then leds s else ?F (of_nat (last ls))),
       elapsed := elapsed s + 20 * length ls,
       trace := trace s @ concat (map (\<lambda>l. [Show (?F (of_nat l)), Delay 20]) ls)\<rparr>"
    by (simp add: comp_def last_map)
  finally show ?thesis .
qed

lemma lightsFromTop_eq:
  "length (leds s) = 113 \<Longrightarrow>
   lightsFromTop s =
     s\<lparr>leds := replicate 113 Black,
       elapsed := elapsed s + 42330,
       trace := trace s @ Enter LightsFromTop #
         concat (map (\<lambda>L.
           [Show (map (\<lambda>j. if j < L then CHSV (of_nat j * hueFactor) 255 60 else leds s ! j)
                    [0..<113]), Delay 10]) [0..<113]) @
         Delay 40000 #
         concat (map (\<lambda>b.
           [Show (map (\<lambda>j. CHSV (of_nat j * hueFactor) 255 (of_nat b)) [0..<113]), Delay 20])
           (rev [1..<61])) @
         [ClearShow]\<rparr>"
  by (simp add: lightsFromTop_def Let_def fill_from_top_eq fade_out_eq emit_def delay_def
      FastLED_clear_def unat_NUM_LEDS cong: if_cong)

lemma lightsFromBottom_eq:
  "length (leds s) = 113 \<Longrightarrow>
   lightsFromBottom s =
     s\<lparr>leds := replicate 113 Black,
       elapsed := elapsed s + 42320,
       trace := trace s @ Enter LightsFromBottom #
         concat (map (\<lambda>i.
           [Show (map (\<lambda>j. if 112 - i < j \<and> j < 113 then CHSV (of_nat j * hueFactor) 255 60
                           else leds s ! j) [0..<113]), Delay 10]) [0..<112]) @
         Delay 40000 #
         concat (map (\<lambda>b.
           [Show (map (\<lambda>j. CHSV (of_nat j * hueFactor) 255 (of_nat b)) [0..<113]), Delay 20])
           (rev [1..<61])) @
         [ClearShow]\<rparr>"
  by (simp add: lightsFromBottom_def Let_def fill_from_bottom_eq fade_out_eq emit_def delay_def
      FastLED_clear_def unat_NUM_LEDS cong: if_cong)

lemma doPink_eq:
  "length (leds s) = 113 \<Longrightarrow>
   doPink B s =
     s\<lparr>leds := replicate 113 Black,
       elapsed := elapsed s + 20 * unat B + 40000 + 20 * unat (B - 1),
       trace := trace s @ Enter DoPink #
         concat (map (\<lambda>l. [Show (replicate 113 (CHSV 200 255 (of_nat l))), Delay 20])
                   [0..<unat B]) @
         Delay 40000 #
         concat (map (\<lambda>l. [Show (replicate 113 (CHSV 200 255 (of_nat l))), Delay 20])
                   (rev [1..<Suc (unat (B - 1))])) @
         [ClearShow]\<rparr>"
proof -
  assume len: "length (leds s) = 113"
  define R where "R = for_up 0 B pink_frame (emit (Enter DoPink) s)"
  let ?fall = "rev [Suc 0..<Suc (unat (B - 1))]"
  have rise: "R = s
     \<lparr>leds := (if [0..<unat B] = [] then leds s
                else replicate 113 (CHSV 200 255 (of_nat (last [0..<unat B])))),
       elapsed := elapsed s + 20 * unat B,
       trace := trace s @ Enter DoPink #
         concat (map (\<lambda>l. [Show (replicate 113 (CHSV 200 255 (of_nat l))), Delay 20])
                   [0..<unat B])\<rparr>"
    using len by (simp add: R_def for_up_fold pink_loop emit_def)
  have len2: "length (leds (delay 40000 R)) = 113"
    using len by (simp add: rise delay_def emit_def)
  have "doPink B s = FastLED_clear (fold pink_frame (map of_nat ?fall) (delay 40000 R))"
    by (simp add: doPink_def Let_def for_down_fold R_def)
  also have "\<dots> = FastLED_clear ((delay 40000 R)
     \<lparr>leds := (if ?fall = [] then leds (delay 40000 R)
                else replicate 113 (CHSV 200 255 (of_nat (last ?fall)))),
       elapsed := elapsed (delay 40000 R) + 20 * length ?fall,
       trace := trace (delay 40000 R) @ concat (map (\<lambda>l.
          [Show (replicate 113 (CHSV 200 255 (of_nat l))), Delay 20]) ?fall)\<rparr>)"
    by (simp only: pink_loop [OF len2])
  also have "\<dots> = s\<lparr>leds := replicate 113 Black,
       elapsed := elapsed s + 20 * unat B + 40000 + 20 * unat (B - 1),
       trace := trace s @ Enter DoPink #
         concat (map (\<lambda>l. [Show (replicate 113 (CHSV 200 255 (of_nat l))), Delay 20])
                   [0..<unat B]) @
         Delay 40000 #
         concat (map (\<lambda>l. [Show (replicate 113 (CHSV 200 255 (of_nat l))), Delay 20])
                   (rev [1..<Suc (unat (B - 1))])) @
         [ClearShow]\<rparr>"
    by (simp add: rise delay_def emit_def FastLED_clear_def unat_NUM_LEDS)
  finally show ?thesis .
qed

section \<open>Which animations a routine enters, and how long it takes\<close>

text \<open>
  The same for a buffer of any length, where only the control events and the time are
  followed: a loop whose body leaves them alone leaves them alone.
\<close>

lemma fold_keeps: "(\<And>x s. p (f x s) = p s) \<Longrightarrow> p (fold f xs s) = p s"
  by (induction xs arbitrary: s) simp_all

lemma fold_adds:
  "(\<And>x s. (m :: 's \<Rightarrow> nat) (f x s) = m s + d) \<Longrightarrow> m (fold f xs s) = m s + d * length xs"
  by (induction xs arbitrary: s) simp_all

lemma ctl_emit: "ctl (emit e s) = ctl s @ (if is_control e then [e] else [])"
  by (simp add: ctl_def emit_def control_events_def)

lemma ctl_set_led [simp]: "ctl (set_led i c s) = ctl s"
  by (simp add: ctl_def set_led_def)

lemma ctl_delay [simp]: "ctl (delay d s) = ctl s"
  by (simp add: ctl_def delay_def emit_def control_events_def)

lemma ctl_show [simp]: "ctl (FastLED_show s) = ctl s"
  by (simp add: ctl_def FastLED_show_def emit_def control_events_def)

lemma ctl_clear [simp]: "ctl (FastLED_clear s) = ctl s"
  by (simp add: ctl_def FastLED_clear_def emit_def control_events_def)

lemma for_up_keeps: "(\<And>x s. p (body x s) = p s) \<Longrightarrow> p (for_up i b body s) = p s"
  unfolding for_up_fold by (rule fold_keeps)

lemma for_down_keeps: "(\<And>x s. p (body x s) = p s) \<Longrightarrow> p (for_down i b body s) = p s"
  unfolding for_down_fold by (rule fold_keeps)

lemma ctl_for_up: "(\<And>x s. ctl (body x s) = ctl s) \<Longrightarrow> ctl (for_up i b body s) = ctl s"
  by (rule for_up_keeps)

lemma ctl_for_down: "(\<And>x s. ctl (body x s) = ctl s) \<Longrightarrow> ctl (for_down i b body s) = ctl s"
  by (rule for_down_keeps)

lemma ctl_fade_out [simp]: "ctl (fade_out s) = ctl s"
  by (simp add: fade_out_def gradient_all_def ctl_for_down ctl_for_up)

lemma ctl_lightsFromTop: "ctl (lightsFromTop s) = ctl s @ [Enter LightsFromTop]"
  by (simp add: lightsFromTop_def Let_def fill_from_top_def ctl_for_up ctl_emit)

lemma ctl_lightsFromBottom: "ctl (lightsFromBottom s) = ctl s @ [Enter LightsFromBottom]"
  by (simp add: lightsFromBottom_def Let_def fill_from_bottom_def ctl_for_up ctl_for_down ctl_emit)

lemma ctl_doPink: "ctl (doPink B s) = ctl s @ [Enter DoPink]"
  by (simp add: doPink_def Let_def pink_frame_def ctl_for_up ctl_for_down ctl_emit)

lemma ctl_doRainbow: "ctl (doRainbow B s) = ctl s @ [Enter DoRainbow]"
proof -
  let ?body = "\<lambda>(counter :: 32 word) (offset :: 16 word, s).
                 let s' = for_up (0 :: 16 word) (ucast NUM_LEDS)
                            (\<lambda>led. set_led (unat led)
                               (CHSV (ucast ((led * ucast hueFactor + offset) mod 256)) 255 B))
                            s;
                     s'' = delay 50 (FastLED_show s');
                     offset' = offset + 1
                 in (if offset' > 255 then 0 else offset', s'')"
  have step: "\<And>x p. (ctl \<circ> snd) (?body x p) = (ctl \<circ> snd) p"
    by (auto simp: Let_def ctl_for_up split: prod.splits)
  have "(ctl \<circ> snd) (for_up 0 2000 ?body (0, emit (Enter DoRainbow) s)) =
        (ctl \<circ> snd) (0 :: 16 word, emit (Enter DoRainbow) s)"
    by (rule for_up_keeps) (rule step)
  then show ?thesis
    by (simp add: doRainbow_def Let_def ctl_emit case_prod_beta)
qed

lemma elapsed_for_up:
  "(\<And>x s. elapsed (body x s) = elapsed s + d) \<Longrightarrow>
   elapsed (for_up i b body s) = elapsed s + d * (unat b - unat i)"
  unfolding for_up_fold using fold_adds [of elapsed body d] by simp

lemma elapsed_for_down:
  "(\<And>x s. elapsed (body x s) = elapsed s + d) \<Longrightarrow>
   elapsed (for_down i b body s) = elapsed s + d * (unat i - unat b)"
proof -
  assume "\<And>x s. elapsed (body x s) = elapsed s + d"
  then have "elapsed (fold body xs s) = elapsed s + d * length xs" for xs
    by (rule fold_adds)
  moreover have "length (rev [Suc (unat b)..<Suc (unat i)]) = unat i - unat b"
    by (simp only: length_rev length_upt diff_Suc_Suc)
  ultimately show ?thesis
    unfolding for_down_fold by (simp only: length_map)
qed

lemma elapsed_set_led [simp]: "elapsed (set_led i c s) = elapsed s"
  by (simp add: set_led_def)

lemma elapsed_delay [simp]: "elapsed (delay d s) = elapsed s + d"
  by (simp add: delay_def emit_def)

lemma elapsed_emit [simp]: "elapsed (emit e s) = elapsed s"
  by (simp add: emit_def)

lemma elapsed_show [simp]: "elapsed (FastLED_show s) = elapsed s"
  by (simp add: FastLED_show_def)

lemma elapsed_clear [simp]: "elapsed (FastLED_clear s) = elapsed s"
  by (simp add: FastLED_clear_def)

lemma elapsed_paint [simp]:
  "elapsed (for_up i b (\<lambda>led. set_led (unat led) (g led)) s) = elapsed s"
  using elapsed_for_up [of "\<lambda>led. set_led (unat led) (g led)" 0 i b s] by simp

lemma elapsed_paint_down [simp]:
  "elapsed (for_down i b (\<lambda>led. set_led (unat led) (g led)) s) = elapsed s"
  using elapsed_for_down [of "\<lambda>led. set_led (unat led) (g led)" 0 i b s] by simp

lemma elapsed_fade_out: "elapsed (fade_out s) = elapsed s + 1200"
  by (simp add: fade_out_def gradient_all_def elapsed_for_down [where d = 20])

lemma elapsed_lightsFromTop: "elapsed (lightsFromTop s) = elapsed s + 42330"
  by (simp add: lightsFromTop_def Let_def fill_from_top_def elapsed_fade_out
      elapsed_for_up [where d = 10] unat_NUM_LEDS)

lemma elapsed_lightsFromBottom: "elapsed (lightsFromBottom s) = elapsed s + 42320"
  by (simp add: lightsFromBottom_def Let_def fill_from_bottom_def elapsed_fade_out
      elapsed_for_down [where d = 10] unat_NUM_LEDS_pred)

section \<open>The routines and the dispatch loop, case by case\<close>

lemma either_sensor_eq:
  "either_sensor env s =
     (if digital env PIN_UPPER_SENSOR (elapsed s)
      then (True, emit (DigitalRead PIN_UPPER_SENSOR True) s)
      else (digital env PIN_LOWER_SENSOR (elapsed s),
            emit (DigitalRead PIN_LOWER_SENSOR (digital env PIN_LOWER_SENSOR (elapsed s)))
              (emit (DigitalRead PIN_UPPER_SENSOR False) s)))"
  by (simp add: either_sensor_def digitalRead_def Let_def)

lemma doNightRoutine_eq:
  "doNightRoutine env s =
     (let u = digital env PIN_UPPER_SENSOR (elapsed s);
          l = digital env PIN_LOWER_SENSOR (elapsed s);
          s2 = emit (DigitalRead PIN_LOWER_SENSOR l) (emit (DigitalRead PIN_UPPER_SENSOR u) s);
          s3 = (if l then delay 2500 (lightsFromBottom s2) else s2)
      in if u then delay 2500 (lightsFromTop s3) else s3)"
  by (simp add: doNightRoutine_def digitalRead_def Let_def)

lemma ctl_doNightRoutine:
  "ctl (doNightRoutine env s) =
     ctl s @
     [DigitalRead PIN_UPPER_SENSOR (digital env PIN_UPPER_SENSOR (elapsed s)),
      DigitalRead PIN_LOWER_SENSOR (digital env PIN_LOWER_SENSOR (elapsed s))] @
     (if digital env PIN_LOWER_SENSOR (elapsed s) then [Enter LightsFromBottom] else []) @
     (if digital env PIN_UPPER_SENSOR (elapsed s) then [Enter LightsFromTop] else [])"
  by (simp add: doNightRoutine_eq Let_def ctl_lightsFromTop ctl_lightsFromBottom ctl_emit)

lemma ctl_doDayRoutine:
  "ctl (doDayRoutine env s) =
     ctl s @
     DigitalRead PIN_UPPER_SENSOR (digital env PIN_UPPER_SENSOR (elapsed s)) #
     (if digital env PIN_UPPER_SENSOR (elapsed s) then []
      else [DigitalRead PIN_LOWER_SENSOR (digital env PIN_LOWER_SENSOR (elapsed s))]) @
     (if digital env PIN_UPPER_SENSOR (elapsed s) \<or> digital env PIN_LOWER_SENSOR (elapsed s)
      then [Enter DoPink] else [])"
  by (simp add: doDayRoutine_def either_sensor_eq ctl_doPink ctl_emit)

lemma ctl_doMorningRoutine:
  "ctl (doMorningRoutine env s) =
     ctl s @
     DigitalRead PIN_UPPER_SENSOR (digital env PIN_UPPER_SENSOR (elapsed s)) #
     (if digital env PIN_UPPER_SENSOR (elapsed s) then []
      else [DigitalRead PIN_LOWER_SENSOR (digital env PIN_LOWER_SENSOR (elapsed s))]) @
     (if digital env PIN_UPPER_SENSOR (elapsed s) \<or> digital env PIN_LOWER_SENSOR (elapsed s)
      then [Enter DoRainbow] else [])"
  by (simp add: doMorningRoutine_def either_sensor_eq ctl_doRainbow ctl_emit)

text \<open>The state in which \<^verbatim>\<open>loop()\<close> reaches its \<^verbatim>\<open>switch\<close>.\<close>

lemma loop_eq:
  "loop env s =
     (let a = analog env (elapsed s);
          m = nextMode (mode s) a;
          s1 = (emit (AnalogRead a) s)\<lparr>mode := m\<rparr>
      in case enumerator m of
           Some MORNING \<Rightarrow> doDayRoutine env s1
         | Some DAY \<Rightarrow> doDayRoutine env s1
         | Some NIGHT \<Rightarrow> doNightRoutine env s1
         | Some EVENING \<Rightarrow> doEveningRoutine env s1
         | None \<Rightarrow> s1\<lparr>mode := stored NIGHT\<rparr>)"
  by (simp add: loop_def analogRead_def setLedMode_def Let_def emit_def
      split: option.splits LedMode.splits)

lemma loop_routes:
  "nextMode (mode s) (analog env (elapsed s)) = stored md \<Longrightarrow>
   loop env s =
     (let s1 = (emit (AnalogRead (analog env (elapsed s))) s)\<lparr>mode := stored md\<rparr>
      in case md of
           MORNING \<Rightarrow> doDayRoutine env s1
         | DAY \<Rightarrow> doDayRoutine env s1
         | NIGHT \<Rightarrow> doNightRoutine env s1
         | EVENING \<Rightarrow> doEveningRoutine env s1)"
  by (cases md) (simp_all add: loop_eq Let_def del: stored.simps)

lemma ctl_mode_update [simp]: "ctl (s\<lparr>mode := m\<rparr>) = ctl s"
  by (simp add: ctl_def)

lemma elapsed_mode_update: "elapsed (s\<lparr>mode := m\<rparr>) = elapsed s"
  by simp

lemma ctl_loop:
  "nextMode (mode s) (analog env (elapsed s)) = stored md \<Longrightarrow>
   ctl (loop env s) =
     ctl s @ AnalogRead (analog env (elapsed s)) #
     (case md of
        NIGHT \<Rightarrow>
          [DigitalRead PIN_UPPER_SENSOR (digital env PIN_UPPER_SENSOR (elapsed s)),
           DigitalRead PIN_LOWER_SENSOR (digital env PIN_LOWER_SENSOR (elapsed s))] @
          (if digital env PIN_LOWER_SENSOR (elapsed s) then [Enter LightsFromBottom] else []) @
          (if digital env PIN_UPPER_SENSOR (elapsed s) then [Enter LightsFromTop] else [])
      | EVENING \<Rightarrow>
          [DigitalRead PIN_UPPER_SENSOR (digital env PIN_UPPER_SENSOR (elapsed s)),
           DigitalRead PIN_LOWER_SENSOR (digital env PIN_LOWER_SENSOR (elapsed s))] @
          (if digital env PIN_LOWER_SENSOR (elapsed s) then [Enter LightsFromBottom] else []) @
          (if digital env PIN_UPPER_SENSOR (elapsed s) then [Enter LightsFromTop] else [])
      | _ \<Rightarrow>
          DigitalRead PIN_UPPER_SENSOR (digital env PIN_UPPER_SENSOR (elapsed s)) #
          (if digital env PIN_UPPER_SENSOR (elapsed s) then []
           else [DigitalRead PIN_LOWER_SENSOR (digital env PIN_LOWER_SENSOR (elapsed s))]) @
          (if digital env PIN_UPPER_SENSOR (elapsed s) \<or> digital env PIN_LOWER_SENSOR (elapsed s)
           then [Enter DoPink] else []))"
  by (cases md)
     (simp_all add: loop_routes Let_def doEveningRoutine_def ctl_doNightRoutine ctl_doDayRoutine
        ctl_emit del: stored.simps)

lemma control_events_frames [simp]:
  "control_events (concat (map (\<lambda>x. [Show (F x), Delay d]) xs)) = []"
  by (induction xs) (simp_all add: control_events_def)

lemma frames_of_frames [simp]:
  "frames_of (concat (map (\<lambda>x. [Show (F x), Delay d]) xs)) = map F xs"
  by (induction xs) (simp_all add: frames_of_def)

lemma frames_of_append [simp]: "frames_of (xs @ ys) = frames_of xs @ frames_of ys"
  by (simp add: frames_of_def)

lemma frames_of_Cons: "frames_of (e # es) = frame_of e @ frames_of es"
  by (simp add: frames_of_def)

lemma control_events_append [simp]:
  "control_events (xs @ ys) = control_events xs @ control_events ys"
  by (simp add: control_events_def)

lemma control_events_Cons:
  "control_events (e # es) = (if is_control e then e # control_events es else control_events es)"
  by (simp add: control_events_def)

lemma in_control_events: "e \<in> set es \<Longrightarrow> is_control e \<Longrightarrow> e \<in> set (control_events es)"
  by (simp add: control_events_def)

section \<open>The animations on the cleared strip\<close>

lemma power_on_leds: "length (leds power_on) = 113"
  by (simp add: power_on_def unat_NUM_LEDS)

lemma frames_of_Nil [simp]: "frames_of [] = []"
  by (simp add: frames_of_def)

lemma control_events_Nil [simp]: "control_events [] = []"
  by (simp add: control_events_def)

text \<open>
  C3, at the code. \<^verbatim>\<open>doPink(0)\<close> on the cleared strip shows no frame before the hold of
  40000 ms, as the claim says. After the hold it does not go straight to the clear: the
  second loop starts at \<^verbatim>\<open>uint8_t level = brightness - 1\<close>, which is 255 for brightness
  0, and shows 255 frames, from brightness 255 down to 1. The buffer is black at exit.
\<close>

theorem doPink_zero_fall_frames:
  "trace (doPink 0 power_on) =
     Enter DoPink # Delay 40000 #
     concat (map (\<lambda>l. [Show (replicate 113 (CHSV 200 255 (of_nat l))), Delay 20])
               (rev [1..<256])) @
     [ClearShow]
   \<and> frames_of (trace (doPink 0 power_on)) =
       map (\<lambda>l. replicate 113 (CHSV 200 255 (of_nat l))) (rev [1..<256]) @
       [replicate 113 Black]
   \<and> leds (doPink 0 power_on) = replicate 113 Black"
proof -
  have eq: "doPink 0 power_on =
     power_on\<lparr>leds := replicate 113 Black,
       elapsed := 45100,
       trace := Enter DoPink # Delay 40000 #
         concat (map (\<lambda>l. [Show (replicate 113 (CHSV 200 255 (of_nat l))), Delay 20])
                   (rev [1..<256])) @
         [ClearShow]\<rparr>"
    using doPink_eq [OF power_on_leds, of 0]
    by (simp add: unsigned_minus_1_eq_mask mask_eq_exp_minus_1 power_on_def)
  have tr: "trace (doPink 0 power_on) =
     Enter DoPink # Delay 40000 #
     concat (map (\<lambda>l. [Show (replicate 113 (CHSV 200 255 (of_nat l))), Delay 20])
               (rev [1..<256])) @
     [ClearShow]"
    unfolding eq by simp
  have fr: "frames_of (trace (doPink 0 power_on)) =
       map (\<lambda>l. replicate 113 (CHSV 200 255 (of_nat l))) (rev [1..<256]) @
       [replicate 113 Black]"
    unfolding tr by (simp add: frames_of_Cons unat_NUM_LEDS)
  have "leds (doPink 0 power_on) = replicate 113 Black"
    unfolding eq by simp
  with tr fr show ?thesis by blast
qed

lemma last_growth_frames:
  "frames_of (trace (fill_from_top s)) =
     frames_of (trace s) @
     map (\<lambda>L. map (\<lambda>j. if j < L then CHSV (of_nat j * hueFactor) 255 60 else leds s ! j)
                 [0..<length (leds s)]) [0..<113]"
  "frames_of (trace (fill_from_bottom s)) =
     frames_of (trace s) @
     map (\<lambda>i. map (\<lambda>j. if 112 - i < j \<and> j < 113 then CHSV (of_nat j * hueFactor) 255 60
                         else leds s ! j) [0..<length (leds s)]) [0..<112]"
  by (simp_all add: fill_from_top_eq fill_from_bottom_eq)

lemma top_dwell_frame:
  "map (\<lambda>j. if j < 112 then g j else Black) [0..<113] = map g [0..<112] @ [Black]"
proof -
  have "[0..<113] = [0..<112] @ [112::nat]" by (simp add: upt_Suc_append [symmetric])
  then show ?thesis by simp
qed

lemma bottom_dwell_frame:
  "map (\<lambda>j. if 1 < j \<and> j < 113 then g j else Black) [0..<113] =
     [Black, Black] @ map g [2..<113]"
proof -
  have "[0..<113] = 0 # 1 # [2..<113::nat]" by (simp add: upt_conv_Cons)
  then show ?thesis by simp
qed

text \<open>
  C5, at the code, from the cleared strip. When the hold of 40000 ms of
  \<^verbatim>\<open>lightsFromTop\<close> begins, pixels 0 to 111 are lit and pixel 112, the last, is still
  black: the outer loop stops at \<^verbatim>\<open>length < NUM_LEDS\<close> and the inner one at
  \<^verbatim>\<open>led < length\<close>. When the hold of \<^verbatim>\<open>lightsFromBottom\<close> begins, pixels 2 to 112 are
  lit and pixels 0 and 1 are still black: the outer loop stops at \<^verbatim>\<open>length > 0\<close> and the
  inner one at \<^verbatim>\<open>led > length\<close>. In both, the buffer at that moment is the last frame
  shown, the one the strip holds during the 40000 ms.
\<close>

theorem fills_stop_short_of_the_strip:
  "leds (fill_from_top (emit (Enter LightsFromTop) power_on)) =
     map (\<lambda>j. CHSV (of_nat j * hueFactor) 255 60) [0..<112] @ [Black]
   \<and> last (frames_of (trace (fill_from_top (emit (Enter LightsFromTop) power_on)))) =
     map (\<lambda>j. CHSV (of_nat j * hueFactor) 255 60) [0..<112] @ [Black]
   \<and> leds (fill_from_bottom (emit (Enter LightsFromBottom) power_on)) =
     [Black, Black] @ map (\<lambda>j. CHSV (of_nat j * hueFactor) 255 60) [2..<113]
   \<and> last (frames_of (trace (fill_from_bottom (emit (Enter LightsFromBottom) power_on)))) =
     [Black, Black] @ map (\<lambda>j. CHSV (of_nat j * hueFactor) 255 60) [2..<113]
   \<and> lightsFromTop power_on =
       FastLED_clear (fade_out (delay 40000
         (fill_from_top (emit (Enter LightsFromTop) power_on))))
   \<and> lightsFromBottom power_on =
       FastLED_clear (fade_out (delay 40000
         (fill_from_bottom (emit (Enter LightsFromBottom) power_on))))"
proof -
  let ?g = "\<lambda>j. CHSV (of_nat j * hueFactor) 255 60"
  have black: "\<And>e j. j < 113 \<Longrightarrow> leds (emit e power_on) ! j = Black"
    by (simp add: emit_def power_on_def unat_NUM_LEDS)
  have len: "\<And>e. length (leds (emit e power_on)) = 113"
    by (simp add: emit_def power_on_leds)
  have top: "leds (fill_from_top (emit (Enter LightsFromTop) power_on)) =
        map (\<lambda>j. if j < 112 then ?g j else Black) [0..<113]"
    by (simp add: fill_from_top_eq len black cong: map_cong if_cong)
  have bottom: "leds (fill_from_bottom (emit (Enter LightsFromBottom) power_on)) =
        map (\<lambda>j. if 1 < j \<and> j < 113 then ?g j else Black) [0..<113]"
    by (simp add: fill_from_bottom_eq len black cong: map_cong if_cong)
  have "last (frames_of (trace (fill_from_top (emit (Enter LightsFromTop) power_on)))) =
        map (\<lambda>j. if j < 112 then ?g j else leds (emit (Enter LightsFromTop) power_on) ! j)
          [0..<113]"
    by (simp add: last_growth_frames len last_map)
  then have top_shown:
    "last (frames_of (trace (fill_from_top (emit (Enter LightsFromTop) power_on)))) =
        map (\<lambda>j. if j < 112 then ?g j else Black) [0..<113]"
    by (simp add: black cong: map_cong if_cong)
  have "last (frames_of (trace (fill_from_bottom (emit (Enter LightsFromBottom) power_on)))) =
        map (\<lambda>j. if 1 < j \<and> j < 113 then ?g j
                  else leds (emit (Enter LightsFromBottom) power_on) ! j) [0..<113]"
    by (simp add: last_growth_frames len last_map)
  then have bottom_shown:
    "last (frames_of (trace (fill_from_bottom (emit (Enter LightsFromBottom) power_on)))) =
        map (\<lambda>j. if 1 < j \<and> j < 113 then ?g j else Black) [0..<113]"
    by (simp add: black cong: map_cong if_cong)
  from top bottom top_shown bottom_shown show ?thesis
    by (simp only: top_dwell_frame bottom_dwell_frame lightsFromTop_def lightsFromBottom_def
        Let_def)
qed

section \<open>The frames of the fill from the top\<close>

lemma hueFactor_eq: "hueFactor = 255 div NUM_LEDS"
  by (simp add: hueFactor_def)

lemma frames_of_lightsFromTop:
  "leds s = replicate (unat NUM_LEDS) Black \<Longrightarrow>
   frames_of (trace (lightsFromTop s)) =
     frames_of (trace s) @
     map (\<lambda>L. map (\<lambda>j. if j < L then CHSV (of_nat j * hueFactor) 255 60 else Black) [0..<113])
       [0..<113] @
     map (\<lambda>b. map (\<lambda>j. CHSV (of_nat j * hueFactor) 255 (of_nat b)) [0..<113]) (rev [1..<61]) @
     [replicate 113 Black]"
proof -
  assume c: "leds s = replicate (unat NUM_LEDS) Black"
  then have len: "length (leds s) = 113" by (simp add: unat_NUM_LEDS)
  have black: "\<And>j. j < 113 \<Longrightarrow> leds s ! j = Black" by (simp add: c unat_NUM_LEDS)
  have grow: "map (\<lambda>L. map (\<lambda>j. if j < L then CHSV (of_nat j * hueFactor) 255 60 else leds s ! j)
                         [0..<113]) [0..<113] =
              map (\<lambda>L. map (\<lambda>j. if j < L then CHSV (of_nat j * hueFactor) 255 60 else Black)
                         [0..<113]) [0..<113]"
    by (simp add: black cong: map_cong if_cong)
  show ?thesis
    unfolding lightsFromTop_eq [OF len]
    by (simp add: frames_of_Cons grow unat_NUM_LEDS)
qed

lemma gradient_hue: "i < 113 \<Longrightarrow> unat (of_nat i * (255 div NUM_LEDS) :: 8 word) = i * (255 div 113)"
proof -
  assume i: "i < 113"
  have "(255 div NUM_LEDS :: 8 word) = 2" by (simp add: NUM_LEDS_def)
  moreover have "unat (of_nat i * 2 :: 8 word) = i * 2"
    using i by (simp add: unat_word_ariths unat_of_nat)
  ultimately show ?thesis by simp
qed

text \<open>
  C8. \<^verbatim>\<open>lightsFromTop\<close> entered with a cleared buffer: the frame it presents at lit length
  \<open>L\<close> (its frame number \<open>L\<close>, counting from 0; the loop takes \<open>L\<close> from 0 to
  \<^verbatim>\<open>NUM_LEDS - 1\<close>) has every pixel below \<open>L\<close> at hue \<open>i * (255 / NUM_LEDS)\<close>,
  saturation 255 and brightness 60, and every pixel from \<open>L\<close> on as it was at entry,
  black. The hue does not wrap: as a number it is \<open>i * (255 div 113)\<close>.
\<close>

theorem lightsFromTop_growth_frame:
  assumes "leds s = replicate (unat NUM_LEDS) Black" and "L < unat NUM_LEDS"
  shows "frames_of (trace (lightsFromTop s)) ! (length (frames_of (trace s)) + L) =
           map (\<lambda>i. if i < L then CHSV (of_nat i * (255 div NUM_LEDS)) 255 60 else Black)
             [0..<unat NUM_LEDS]
         \<and> (\<forall>i < L. frames_of (trace (lightsFromTop s)) ! (length (frames_of (trace s)) + L) ! i =
               CHSV (of_nat i * (255 div NUM_LEDS)) 255 60)
         \<and> (\<forall>i. L \<le> i \<and> i < unat NUM_LEDS \<longrightarrow>
               frames_of (trace (lightsFromTop s)) ! (length (frames_of (trace s)) + L) ! i =
               leds s ! i)
         \<and> (\<forall>i < L. unat (of_nat i * (255 div NUM_LEDS) :: 8 word) = i * (255 div 113))"
proof -
  from assms(2) have L: "L < 113" by (simp add: unat_NUM_LEDS)
  have f: "frames_of (trace (lightsFromTop s)) ! (length (frames_of (trace s)) + L) =
           map (\<lambda>i. if i < L then CHSV (of_nat i * (255 div NUM_LEDS)) 255 60 else Black)
             [0..<unat NUM_LEDS]"
    unfolding frames_of_lightsFromTop [OF assms(1)]
    using L by (simp add: nth_append hueFactor_eq unat_NUM_LEDS)
  have "\<forall>i < L. frames_of (trace (lightsFromTop s)) ! (length (frames_of (trace s)) + L) ! i =
               CHSV (of_nat i * (255 div NUM_LEDS)) 255 60"
    unfolding f using L by (simp add: unat_NUM_LEDS)
  moreover
  have "\<forall>i. L \<le> i \<and> i < unat NUM_LEDS \<longrightarrow>
               frames_of (trace (lightsFromTop s)) ! (length (frames_of (trace s)) + L) ! i =
               leds s ! i"
    unfolding f by (simp add: assms(1))
  moreover
  have "\<forall>i < L. unat (of_nat i * (255 div NUM_LEDS) :: 8 word) = i * (255 div 113)"
    using L gradient_hue by simp
  ultimately show ?thesis using f by blast
qed

theorem lightsFromTop_growth_frame_witness:
  "leds power_on = replicate (unat NUM_LEDS) Black \<and> 3 < unat NUM_LEDS
   \<and> frames_of (trace (lightsFromTop power_on)) ! 3 =
       map (\<lambda>i. if i < 3 then CHSV (of_nat i * (255 div NUM_LEDS)) 255 60 else Black)
         [0..<unat NUM_LEDS]"
proof -
  have h1: "leds power_on = replicate (unat NUM_LEDS) Black" by (simp add: power_on_def)
  have h2: "3 < unat NUM_LEDS" by (simp add: unat_NUM_LEDS)
  have "length (frames_of (trace power_on)) + 3 = 3" by (simp add: power_on_def)
  with lightsFromTop_growth_frame [OF h1 h2] h1 h2 show ?thesis by simp
qed

section \<open>The night routine\<close>

lemma ctl_eq: "control_events (trace s) = ctl s"
  by (simp add: ctl_def)

text \<open>
  C9. \<^verbatim>\<open>doNightRoutine\<close> entered with motion at both sensors runs both fills, one after
  the other: \<^verbatim>\<open>lightsFromBottom\<close> to its end, then \<^verbatim>\<open>delay(2500)\<close>, and only then
  \<^verbatim>\<open>lightsFromTop\<close> to its end and a second \<^verbatim>\<open>delay(2500)\<close>. Neither is skipped, the
  sensors are read only before the first, and the routine takes the time of both:
  42320 + 2500 + 42330 + 2500 ms of delays. With a buffer of \<^verbatim>\<open>NUM_LEDS\<close> cells the
  events are: the two reads, the entry of the bottom fill, its frames and delays, its
  clear, the delay of 2500, the entry of the top fill, its frames and delays, its clear,
  the delay of 2500.
\<close>

theorem doNightRoutine_both_zones:
  assumes "digital env PIN_UPPER_SENSOR (elapsed s)"
    and "digital env PIN_LOWER_SENSOR (elapsed s)"
  shows "doNightRoutine env s =
           delay 2500 (lightsFromTop (delay 2500 (lightsFromBottom
             (emit (DigitalRead PIN_LOWER_SENSOR True)
                (emit (DigitalRead PIN_UPPER_SENSOR True) s)))))
         \<and> control_events (trace (doNightRoutine env s)) =
             control_events (trace s) @
             [DigitalRead PIN_UPPER_SENSOR True, DigitalRead PIN_LOWER_SENSOR True,
              Enter LightsFromBottom, Enter LightsFromTop]
         \<and> elapsed (doNightRoutine env s) = elapsed s + (42320 + 2500) + (42330 + 2500)
         \<and> (length (leds s) = unat NUM_LEDS \<longrightarrow>
              (\<exists>es1 es2. trace (doNightRoutine env s) =
                 trace s @
                 [DigitalRead PIN_UPPER_SENSOR True, DigitalRead PIN_LOWER_SENSOR True,
                  Enter LightsFromBottom] @ es1 @
                 [ClearShow, Delay 2500, Enter LightsFromTop] @ es2 @
                 [ClearShow, Delay 2500]
                 \<and> control_events es1 = [] \<and> control_events es2 = []))"
proof -
  let ?s2 = "emit (DigitalRead PIN_LOWER_SENSOR True) (emit (DigitalRead PIN_UPPER_SENSOR True) s)"
  have eq: "doNightRoutine env s = delay 2500 (lightsFromTop (delay 2500 (lightsFromBottom ?s2)))"
    using assms by (simp add: doNightRoutine_eq Let_def)
  have c: "control_events (trace (doNightRoutine env s)) =
             control_events (trace s) @
             [DigitalRead PIN_UPPER_SENSOR True, DigitalRead PIN_LOWER_SENSOR True,
              Enter LightsFromBottom, Enter LightsFromTop]"
    using assms by (simp add: ctl_eq ctl_doNightRoutine)
  have m: "elapsed (doNightRoutine env s) = elapsed s + (42320 + 2500) + (42330 + 2500)"
    unfolding eq by (simp add: elapsed_lightsFromTop elapsed_lightsFromBottom)
  have t: "\<exists>es1 es2. trace (doNightRoutine env s) =
                 trace s @
                 [DigitalRead PIN_UPPER_SENSOR True, DigitalRead PIN_LOWER_SENSOR True,
                  Enter LightsFromBottom] @ es1 @
                 [ClearShow, Delay 2500, Enter LightsFromTop] @ es2 @
                 [ClearShow, Delay 2500]
                 \<and> control_events es1 = [] \<and> control_events es2 = []"
    if len: "length (leds s) = unat NUM_LEDS"
  proof -
    let ?grad = "\<lambda>b j. CHSV (of_nat j * hueFactor) 255 b"
    let ?fade = "concat (map (\<lambda>b. [Show (map (?grad (of_nat b)) [0..<113]), Delay 20])
                     (rev [1..<61]))"
    let ?es1 = "concat (map (\<lambda>i.
           [Show (map (\<lambda>j. if 112 - i < j \<and> j < 113 then ?grad 60 j else leds s ! j)
                    [0..<113]), Delay 10]) [0..<112]) @ Delay 40000 # ?fade"
    let ?es2 = "concat (map (\<lambda>L.
           [Show (map (\<lambda>j. if j < L then ?grad 60 j else replicate 113 Black ! j)
                    [0..<113]), Delay 10]) [0..<113]) @ Delay 40000 # ?fade"
    have l2: "length (leds ?s2) = 113" using len by (simp add: emit_def unat_NUM_LEDS)
    have b: "lightsFromBottom ?s2 = s\<lparr>leds := replicate 113 Black,
        elapsed := elapsed s + 42320,
        trace := trace s @
          [DigitalRead PIN_UPPER_SENSOR True, DigitalRead PIN_LOWER_SENSOR True,
           Enter LightsFromBottom] @ ?es1 @ [ClearShow]\<rparr>"
      unfolding lightsFromBottom_eq [OF l2] by (simp add: emit_def cong: if_cong)
    have l3: "length (leds (delay 2500 (lightsFromBottom ?s2))) = 113"
      unfolding b by (simp add: delay_def emit_def)
    have "trace (doNightRoutine env s) =
            trace s @
            [DigitalRead PIN_UPPER_SENSOR True, DigitalRead PIN_LOWER_SENSOR True,
             Enter LightsFromBottom] @ ?es1 @
            [ClearShow, Delay 2500, Enter LightsFromTop] @ ?es2 @ [ClearShow, Delay 2500]"
      unfolding eq lightsFromTop_eq [OF l3]
      unfolding b by (simp add: delay_def emit_def cong: if_cong)
    moreover have "control_events ?es1 = []" and "control_events ?es2 = []"
      by (simp_all add: control_events_Cons)
    ultimately show ?thesis by blast
  qed
  from eq c m t show ?thesis by blast
qed

theorem doNightRoutine_both_zones_witness:
  "(let env = \<lparr>digital = (\<lambda>pin t. True), analog = (\<lambda>t. 0)\<rparr> in
      digital env PIN_UPPER_SENSOR (elapsed power_on)
      \<and> digital env PIN_LOWER_SENSOR (elapsed power_on)
      \<and> length (leds power_on) = unat NUM_LEDS
      \<and> control_events (trace (doNightRoutine env power_on)) =
          [DigitalRead PIN_UPPER_SENSOR True, DigitalRead PIN_LOWER_SENSOR True,
           Enter LightsFromBottom, Enter LightsFromTop]
      \<and> elapsed (doNightRoutine env power_on) = 89650
      \<and> (\<exists>es1 es2. trace (doNightRoutine env power_on) =
            [DigitalRead PIN_UPPER_SENSOR True, DigitalRead PIN_LOWER_SENSOR True,
             Enter LightsFromBottom] @ es1 @
            [ClearShow, Delay 2500, Enter LightsFromTop] @ es2 @ [ClearShow, Delay 2500]))"
proof -
  let ?env = "\<lparr>digital = (\<lambda>pin t. True), analog = (\<lambda>t. 0)\<rparr> :: sensors"
  have h1: "digital ?env PIN_UPPER_SENSOR (elapsed power_on)" by simp
  have h2: "digital ?env PIN_LOWER_SENSOR (elapsed power_on)" by simp
  have h3: "length (leds power_on) = unat NUM_LEDS" by (simp add: power_on_def)
  note r = doNightRoutine_both_zones [OF h1 h2]
  from r have "control_events (trace (doNightRoutine ?env power_on)) =
      control_events (trace power_on) @
      [DigitalRead PIN_UPPER_SENSOR True, DigitalRead PIN_LOWER_SENSOR True,
       Enter LightsFromBottom, Enter LightsFromTop]"
    by blast
  then have c: "control_events (trace (doNightRoutine ?env power_on)) =
      [DigitalRead PIN_UPPER_SENSOR True, DigitalRead PIN_LOWER_SENSOR True,
       Enter LightsFromBottom, Enter LightsFromTop]"
    by (simp add: power_on_def)
  from r have "elapsed (doNightRoutine ?env power_on) =
      elapsed power_on + (42320 + 2500) + (42330 + 2500)"
    by blast
  then have m: "elapsed (doNightRoutine ?env power_on) = 89650"
    by (simp add: power_on_def)
  from r h3 have "\<exists>es1 es2. trace (doNightRoutine ?env power_on) =
                 trace power_on @
                 [DigitalRead PIN_UPPER_SENSOR True, DigitalRead PIN_LOWER_SENSOR True,
                  Enter LightsFromBottom] @ es1 @
                 [ClearShow, Delay 2500, Enter LightsFromTop] @ es2 @
                 [ClearShow, Delay 2500]
                 \<and> control_events es1 = [] \<and> control_events es2 = []"
    by blast
  then have t: "\<exists>es1 es2. trace (doNightRoutine ?env power_on) =
            [DigitalRead PIN_UPPER_SENSOR True, DigitalRead PIN_LOWER_SENSOR True,
             Enter LightsFromBottom] @ es1 @
            [ClearShow, Delay 2500, Enter LightsFromTop] @ es2 @ [ClearShow, Delay 2500]"
    by (auto simp: power_on_def)
  from h1 h2 h3 c m t show ?thesis unfolding Let_def by blast
qed

text \<open>
  C10. \<^verbatim>\<open>doNightRoutine\<close> reads each motion sensor once, the upper one then the lower
  one, both before any animation is entered and both at the time of entry. Which fills
  run is decided by these two values: the bottom fill iff the lower value is high, the top
  fill iff the upper value is high. So two sensor histories that agree at the time of
  entry give the same run, whatever they do later; and with the upper sensor low and the
  lower one high at entry the run is the bottom fill and its delay, and nothing else.
\<close>

theorem doNightRoutine_samples_at_entry:
  "control_events (trace (doNightRoutine env s)) =
     control_events (trace s) @
     [DigitalRead PIN_UPPER_SENSOR (digital env PIN_UPPER_SENSOR (elapsed s)),
      DigitalRead PIN_LOWER_SENSOR (digital env PIN_LOWER_SENSOR (elapsed s))] @
     (if digital env PIN_LOWER_SENSOR (elapsed s) then [Enter LightsFromBottom] else []) @
     (if digital env PIN_UPPER_SENSOR (elapsed s) then [Enter LightsFromTop] else [])
   \<and> (digital env' PIN_UPPER_SENSOR (elapsed s) = digital env PIN_UPPER_SENSOR (elapsed s) \<and>
       digital env' PIN_LOWER_SENSOR (elapsed s) = digital env PIN_LOWER_SENSOR (elapsed s) \<longrightarrow>
       doNightRoutine env' s = doNightRoutine env s)
   \<and> (\<not> digital env PIN_UPPER_SENSOR (elapsed s) \<and> digital env PIN_LOWER_SENSOR (elapsed s) \<longrightarrow>
       doNightRoutine env s =
         delay 2500 (lightsFromBottom
           (emit (DigitalRead PIN_LOWER_SENSOR True)
              (emit (DigitalRead PIN_UPPER_SENSOR False) s))))"
proof -
  have "control_events (trace (doNightRoutine env s)) =
     control_events (trace s) @
     [DigitalRead PIN_UPPER_SENSOR (digital env PIN_UPPER_SENSOR (elapsed s)),
      DigitalRead PIN_LOWER_SENSOR (digital env PIN_LOWER_SENSOR (elapsed s))] @
     (if digital env PIN_LOWER_SENSOR (elapsed s) then [Enter LightsFromBottom] else []) @
     (if digital env PIN_UPPER_SENSOR (elapsed s) then [Enter LightsFromTop] else [])"
    unfolding ctl_eq by (rule ctl_doNightRoutine)
  moreover have "doNightRoutine env' s = doNightRoutine env s"
    if "digital env' PIN_UPPER_SENSOR (elapsed s) = digital env PIN_UPPER_SENSOR (elapsed s)"
      and "digital env' PIN_LOWER_SENSOR (elapsed s) = digital env PIN_LOWER_SENSOR (elapsed s)"
    using that by (simp add: doNightRoutine_eq)
  moreover have "doNightRoutine env s =
         delay 2500 (lightsFromBottom
           (emit (DigitalRead PIN_LOWER_SENSOR True)
              (emit (DigitalRead PIN_UPPER_SENSOR False) s)))"
    if "\<not> digital env PIN_UPPER_SENSOR (elapsed s)" and "digital env PIN_LOWER_SENSOR (elapsed s)"
    using that by (simp add: doNightRoutine_eq Let_def)
  ultimately show ?thesis by blast
qed

text \<open>
  An instance: motion at the lower sensor throughout, motion at the upper sensor from the
  first millisecond after the routine is entered. The top fill is not entered.
\<close>

theorem doNightRoutine_samples_at_entry_witness:
  "(let late = \<lparr>digital = (\<lambda>pin t. if pin = PIN_UPPER_SENSOR then 0 < t else True),
                 analog = (\<lambda>t. 0)\<rparr>;
        never = \<lparr>digital = (\<lambda>pin t. pin \<noteq> PIN_UPPER_SENSOR), analog = (\<lambda>t. 0)\<rparr>
    in \<not> digital late PIN_UPPER_SENSOR (elapsed power_on)
       \<and> digital late PIN_UPPER_SENSOR (elapsed power_on + 1)
       \<and> digital late PIN_LOWER_SENSOR (elapsed power_on)
       \<and> control_events (trace (doNightRoutine late power_on)) =
           [DigitalRead PIN_UPPER_SENSOR False, DigitalRead PIN_LOWER_SENSOR True,
            Enter LightsFromBottom]
       \<and> doNightRoutine late power_on = doNightRoutine never power_on
       \<and> doNightRoutine late power_on =
           delay 2500 (lightsFromBottom
             (emit (DigitalRead PIN_LOWER_SENSOR True)
                (emit (DigitalRead PIN_UPPER_SENSOR False) power_on))))"
proof -
  let ?late = "\<lparr>digital = (\<lambda>pin t. if pin = PIN_UPPER_SENSOR then 0 < t else True),
                 analog = (\<lambda>t. 0)\<rparr> :: sensors"
  let ?never = "\<lparr>digital = (\<lambda>pin t. pin \<noteq> PIN_UPPER_SENSOR), analog = (\<lambda>t. 0)\<rparr> :: sensors"
  have pins: "PIN_LOWER_SENSOR \<noteq> PIN_UPPER_SENSOR"
    by (simp add: PIN_LOWER_SENSOR_def PIN_UPPER_SENSOR_def)
  have m0: "elapsed power_on = 0" by (simp add: power_on_def)
  have h1: "\<not> digital ?late PIN_UPPER_SENSOR (elapsed power_on)" by (simp add: m0)
  have h1': "digital ?late PIN_UPPER_SENSOR (elapsed power_on + 1)" by simp
  have h2: "digital ?late PIN_LOWER_SENSOR (elapsed power_on)" by (simp add: pins)
  have h3: "digital ?never PIN_UPPER_SENSOR (elapsed power_on) =
            digital ?late PIN_UPPER_SENSOR (elapsed power_on)" by (simp add: m0)
  have h4: "digital ?never PIN_LOWER_SENSOR (elapsed power_on) =
            digital ?late PIN_LOWER_SENSOR (elapsed power_on)" by (simp add: pins)
  note r = doNightRoutine_samples_at_entry [of ?late power_on ?never]
  from r have "control_events (trace (doNightRoutine ?late power_on)) =
     control_events (trace power_on) @
     [DigitalRead PIN_UPPER_SENSOR (digital ?late PIN_UPPER_SENSOR (elapsed power_on)),
      DigitalRead PIN_LOWER_SENSOR (digital ?late PIN_LOWER_SENSOR (elapsed power_on))] @
     (if digital ?late PIN_LOWER_SENSOR (elapsed power_on) then [Enter LightsFromBottom] else []) @
     (if digital ?late PIN_UPPER_SENSOR (elapsed power_on) then [Enter LightsFromTop] else [])"
    by blast
  then have c: "control_events (trace (doNightRoutine ?late power_on)) =
           [DigitalRead PIN_UPPER_SENSOR False, DigitalRead PIN_LOWER_SENSOR True,
            Enter LightsFromBottom]"
    using h1 h2 by (simp add: power_on_def pins)
  from r h3 h4 have i: "doNightRoutine ?never power_on = doNightRoutine ?late power_on"
    by blast
  from r h1 h2 have e: "doNightRoutine ?late power_on =
           delay 2500 (lightsFromBottom
             (emit (DigitalRead PIN_LOWER_SENSOR True)
                (emit (DigitalRead PIN_UPPER_SENSOR False) power_on)))"
    by blast
  from h1 h1' h2 c i e show ?thesis unfolding Let_def by metis
qed

section \<open>One pass of the dispatch loop\<close>

text \<open>
  C4, as the sketch has it. In a pass of \<^verbatim>\<open>loop()\<close> with motion at the lower sensor and
  none at the upper one: when the mode is DAY, the pass is the pink fade \<^verbatim>\<open>doPink(80)\<close>
  and a delay of 5000 ms, and no fill is entered; when the mode is NIGHT, the pass is
  \<^verbatim>\<open>lightsFromBottom\<close> and a delay of 2500 ms, and \<^verbatim>\<open>lightsFromTop\<close> is not entered.
\<close>

theorem loop_lower_motion_only:
  assumes "digital env PIN_LOWER_SENSOR (elapsed s)"
    and "\<not> digital env PIN_UPPER_SENSOR (elapsed s)"
  shows "(nextMode (mode s) (analog env (elapsed s)) = stored DAY \<longrightarrow>
            loop env s =
              delay 5000 (doPink 80
                (emit (DigitalRead PIN_LOWER_SENSOR True)
                   (emit (DigitalRead PIN_UPPER_SENSOR False)
                      ((emit (AnalogRead (analog env (elapsed s))) s)\<lparr>mode := stored DAY\<rparr>))))
            \<and> control_events (trace (loop env s)) =
                control_events (trace s) @
                [AnalogRead (analog env (elapsed s)), DigitalRead PIN_UPPER_SENSOR False,
                 DigitalRead PIN_LOWER_SENSOR True, Enter DoPink])
         \<and> (nextMode (mode s) (analog env (elapsed s)) = stored NIGHT \<longrightarrow>
            loop env s =
              delay 2500 (lightsFromBottom
                (emit (DigitalRead PIN_LOWER_SENSOR True)
                   (emit (DigitalRead PIN_UPPER_SENSOR False)
                      ((emit (AnalogRead (analog env (elapsed s))) s)\<lparr>mode := stored NIGHT\<rparr>))))
            \<and> control_events (trace (loop env s)) =
                control_events (trace s) @
                [AnalogRead (analog env (elapsed s)), DigitalRead PIN_UPPER_SENSOR False,
                 DigitalRead PIN_LOWER_SENSOR True, Enter LightsFromBottom])"
proof -
  let ?a = "analog env (elapsed s)"
  have day: "loop env s =
              delay 5000 (doPink 80
                (emit (DigitalRead PIN_LOWER_SENSOR True)
                   (emit (DigitalRead PIN_UPPER_SENSOR False)
                      ((emit (AnalogRead ?a) s)\<lparr>mode := stored DAY\<rparr>))))
            \<and> control_events (trace (loop env s)) =
                control_events (trace s) @
                [AnalogRead ?a, DigitalRead PIN_UPPER_SENSOR False,
                 DigitalRead PIN_LOWER_SENSOR True, Enter DoPink]"
    if m: "nextMode (mode s) ?a = stored DAY"
    using assms ctl_loop [OF m] loop_routes [OF m]
    by (simp add: ctl_eq doDayRoutine_def either_sensor_eq Let_def del: stored.simps)
  have night: "loop env s =
              delay 2500 (lightsFromBottom
                (emit (DigitalRead PIN_LOWER_SENSOR True)
                   (emit (DigitalRead PIN_UPPER_SENSOR False)
                      ((emit (AnalogRead ?a) s)\<lparr>mode := stored NIGHT\<rparr>))))
            \<and> control_events (trace (loop env s)) =
                control_events (trace s) @
                [AnalogRead ?a, DigitalRead PIN_UPPER_SENSOR False,
                 DigitalRead PIN_LOWER_SENSOR True, Enter LightsFromBottom]"
    if m: "nextMode (mode s) ?a = stored NIGHT"
    using assms ctl_loop [OF m] loop_routes [OF m]
    by (simp add: ctl_eq doNightRoutine_eq Let_def del: stored.simps)
  from day night show ?thesis by blast
qed

lemma nextMode_stays_DAY_600: "nextMode (stored DAY) 600 = stored DAY"
  by (simp add: nextMode_def enumerator_def thresholds)

lemma nextMode_stays_NIGHT_50: "nextMode (stored NIGHT) 50 = stored NIGHT"
  by (simp add: nextMode_def enumerator_def thresholds)

lemma pins_differ: "PIN_LOWER_SENSOR \<noteq> PIN_UPPER_SENSOR"
  by (simp add: PIN_LOWER_SENSOR_def PIN_UPPER_SENSOR_def)

theorem loop_lower_motion_only_witness:
  "(let env = \<lparr>digital = (\<lambda>pin t. pin = PIN_LOWER_SENSOR), analog = (\<lambda>t. 600)\<rparr>;
        s = power_on\<lparr>mode := stored DAY\<rparr>
    in digital env PIN_LOWER_SENSOR (elapsed s) \<and> \<not> digital env PIN_UPPER_SENSOR (elapsed s)
       \<and> nextMode (mode s) (analog env (elapsed s)) = stored DAY
       \<and> control_events (trace (loop env s)) =
           [AnalogRead 600, DigitalRead PIN_UPPER_SENSOR False,
            DigitalRead PIN_LOWER_SENSOR True, Enter DoPink])
   \<and> (let env = \<lparr>digital = (\<lambda>pin t. pin = PIN_LOWER_SENSOR), analog = (\<lambda>t. 50)\<rparr>;
        s = power_on\<lparr>mode := stored NIGHT\<rparr>
    in digital env PIN_LOWER_SENSOR (elapsed s) \<and> \<not> digital env PIN_UPPER_SENSOR (elapsed s)
       \<and> nextMode (mode s) (analog env (elapsed s)) = stored NIGHT
       \<and> control_events (trace (loop env s)) =
           [AnalogRead 50, DigitalRead PIN_UPPER_SENSOR False,
            DigitalRead PIN_LOWER_SENSOR True, Enter LightsFromBottom])"
proof -
  let ?day = "\<lparr>digital = (\<lambda>pin t. pin = PIN_LOWER_SENSOR), analog = (\<lambda>t. 600)\<rparr> :: sensors"
  let ?night = "\<lparr>digital = (\<lambda>pin t. pin = PIN_LOWER_SENSOR), analog = (\<lambda>t. 50)\<rparr> :: sensors"
  let ?sd = "power_on\<lparr>mode := stored DAY\<rparr>"
  let ?sn = "power_on\<lparr>mode := stored NIGHT\<rparr>"
  have d1: "digital ?day PIN_LOWER_SENSOR (elapsed ?sd)" by simp
  have d2: "\<not> digital ?day PIN_UPPER_SENSOR (elapsed ?sd)" using pins_differ by simp
  have d3: "nextMode (mode ?sd) (analog ?day (elapsed ?sd)) = stored DAY"
    by (simp add: nextMode_stays_DAY_600 del: stored.simps)
  have n1: "digital ?night PIN_LOWER_SENSOR (elapsed ?sn)" by simp
  have n2: "\<not> digital ?night PIN_UPPER_SENSOR (elapsed ?sn)" using pins_differ by simp
  have n3: "nextMode (mode ?sn) (analog ?night (elapsed ?sn)) = stored NIGHT"
    by (simp add: nextMode_stays_NIGHT_50 del: stored.simps)
  from loop_lower_motion_only [OF d1 d2] d3
  have "control_events (trace (loop ?day ?sd)) =
          control_events (trace ?sd) @
          [AnalogRead (analog ?day (elapsed ?sd)), DigitalRead PIN_UPPER_SENSOR False,
           DigitalRead PIN_LOWER_SENSOR True, Enter DoPink]"
    by blast
  then have dc: "control_events (trace (loop ?day ?sd)) =
           [AnalogRead 600, DigitalRead PIN_UPPER_SENSOR False,
            DigitalRead PIN_LOWER_SENSOR True, Enter DoPink]"
    by (simp add: power_on_def)
  from loop_lower_motion_only [OF n1 n2] n3
  have "control_events (trace (loop ?night ?sn)) =
          control_events (trace ?sn) @
          [AnalogRead (analog ?night (elapsed ?sn)), DigitalRead PIN_UPPER_SENSOR False,
           DigitalRead PIN_LOWER_SENSOR True, Enter LightsFromBottom]"
    by blast
  then have nc: "control_events (trace (loop ?night ?sn)) =
           [AnalogRead 50, DigitalRead PIN_UPPER_SENSOR False,
            DigitalRead PIN_LOWER_SENSOR True, Enter LightsFromBottom]"
    by (simp add: power_on_def)
  from d1 d2 d3 dc n1 n2 n3 nc show ?thesis unfolding Let_def by blast
qed

text \<open>
  C4 as stated fails: a pass in mode DAY (light level 600) with motion at the lower sensor
  only reads the light, reads the two sensors and enters the pink fade; the fill from the
  bottom is not entered.
\<close>

theorem loop_day_lower_motion_no_fill:
  "(let env = \<lparr>digital = (\<lambda>pin t. pin = PIN_LOWER_SENSOR), analog = (\<lambda>t. 600)\<rparr>;
        s = power_on\<lparr>mode := stored DAY\<rparr>
    in mode (loop env s) = stored DAY
       \<and> digital env PIN_LOWER_SENSOR (elapsed s) \<and> \<not> digital env PIN_UPPER_SENSOR (elapsed s)
       \<and> control_events (trace (loop env s)) =
           [AnalogRead 600, DigitalRead PIN_UPPER_SENSOR False,
            DigitalRead PIN_LOWER_SENSOR True, Enter DoPink]
       \<and> Enter LightsFromBottom \<notin> set (trace (loop env s)))"
proof -
  let ?env = "\<lparr>digital = (\<lambda>pin t. pin = PIN_LOWER_SENSOR), analog = (\<lambda>t. 600)\<rparr> :: sensors"
  let ?s = "power_on\<lparr>mode := stored DAY\<rparr>"
  have d1: "digital ?env PIN_LOWER_SENSOR (elapsed ?s)" by simp
  have d2: "\<not> digital ?env PIN_UPPER_SENSOR (elapsed ?s)" using pins_differ by simp
  have d3: "nextMode (mode ?s) (analog ?env (elapsed ?s)) = stored DAY"
    by (simp add: nextMode_stays_DAY_600 del: stored.simps)
  have c: "control_events (trace (loop ?env ?s)) =
           [AnalogRead 600, DigitalRead PIN_UPPER_SENSOR False,
            DigitalRead PIN_LOWER_SENSOR True, Enter DoPink]"
  proof -
    have "ctl (loop ?env ?s) =
            ctl ?s @ [AnalogRead 600, DigitalRead PIN_UPPER_SENSOR False,
                      DigitalRead PIN_LOWER_SENSOR True, Enter DoPink]"
      using ctl_loop [OF d3] d1 d2 by simp
    moreover have "ctl ?s = []" by (simp add: ctl_def power_on_def)
    ultimately show ?thesis by (simp add: ctl_def)
  qed
  have "Enter LightsFromBottom \<notin> set (control_events (trace (loop ?env ?s)))"
    unfolding c by simp
  then have nf: "Enter LightsFromBottom \<notin> set (trace (loop ?env ?s))"
    using in_control_events [of "Enter LightsFromBottom" "trace (loop ?env ?s)"] by auto
  have "mode (loop ?env ?s) = stored DAY"
    unfolding loop_routes [OF d3] using d1 d2
    by (simp add: doDayRoutine_def either_sensor_eq doPink_eq emit_def delay_def power_on_leds
        del: stored.simps)
  with d1 d2 c nf show ?thesis unfolding Let_def by blast
qed

lemma doDayRoutine_eq:
  "doDayRoutine env s =
     (if fst (either_sensor env s) then delay 5000 (doPink 80 (snd (either_sensor env s)))
      else snd (either_sensor env s))"
  by (simp add: doDayRoutine_def case_prod_beta)

lemma fst_either_sensor:
  "fst (either_sensor env s) \<longleftrightarrow>
     digital env PIN_UPPER_SENSOR (elapsed s) \<or> digital env PIN_LOWER_SENSOR (elapsed s)"
  by (simp add: either_sensor_eq)

lemma loop_enters_no_rainbow:
  "\<exists>new. control_events (trace (loop env s)) = control_events (trace s) @ new
         \<and> Enter DoRainbow \<notin> set new"
proof -
  obtain md where m: "nextMode (mode s) (analog env (elapsed s)) = stored md"
    using nextMode_valid by blast
  show ?thesis
    unfolding ctl_eq ctl_loop [OF m]
    by (cases md) auto
qed

text \<open>
  C6. \<^verbatim>\<open>loop()\<close> runs \<^verbatim>\<open>doNightRoutine\<close> in mode NIGHT and \<^verbatim>\<open>doEveningRoutine\<close> in mode
  EVENING, and \<^verbatim>\<open>doEveningRoutine\<close> is \<^verbatim>\<open>doNightRoutine\<close>. It runs \<^verbatim>\<open>doDayRoutine\<close> in
  mode MORNING as in mode DAY, and \<^verbatim>\<open>doDayRoutine\<close> runs the pink fade when either
  sensor reports motion, and nothing otherwise. So no pass of \<^verbatim>\<open>loop()\<close> enters
  \<^verbatim>\<open>doRainbow\<close>, whatever the mode and the sensors.
\<close>

theorem loop_dispatch:
  "(let a = analog env (elapsed s);
        m = nextMode (mode s) a;
        s1 = (emit (AnalogRead a) s)\<lparr>mode := m\<rparr>
    in (m = stored NIGHT \<longrightarrow> loop env s = doNightRoutine env s1)
       \<and> (m = stored EVENING \<longrightarrow>
            loop env s = doEveningRoutine env s1 \<and> loop env s = doNightRoutine env s1)
       \<and> (m = stored MORNING \<longrightarrow> loop env s = doDayRoutine env s1)
       \<and> (m = stored DAY \<longrightarrow> loop env s = doDayRoutine env s1))
   \<and> doEveningRoutine env s = doNightRoutine env s
   \<and> doDayRoutine env s =
       (if digital env PIN_UPPER_SENSOR (elapsed s) \<or> digital env PIN_LOWER_SENSOR (elapsed s)
        then delay 5000 (doPink 80 (snd (either_sensor env s)))
        else snd (either_sensor env s))
   \<and> (\<exists>new. control_events (trace (loop env s)) = control_events (trace s) @ new
             \<and> Enter DoRainbow \<notin> set new)"
proof -
  let ?a = "analog env (elapsed s)"
  let ?m = "nextMode (mode s) ?a"
  let ?s1 = "(emit (AnalogRead ?a) s)\<lparr>mode := ?m\<rparr>"
  have r: "loop env s =
            (case md of
               MORNING \<Rightarrow> doDayRoutine env ?s1
             | DAY \<Rightarrow> doDayRoutine env ?s1
             | NIGHT \<Rightarrow> doNightRoutine env ?s1
             | EVENING \<Rightarrow> doEveningRoutine env ?s1)"
    if "?m = stored md" for md
    using loop_routes [OF that] that by (cases md) (simp_all add: Let_def del: stored.simps)
  have "?m = stored NIGHT \<longrightarrow> loop env s = doNightRoutine env ?s1"
    using r [of NIGHT] by simp
  moreover have "?m = stored EVENING \<longrightarrow>
            loop env s = doEveningRoutine env ?s1 \<and> loop env s = doNightRoutine env ?s1"
    using r [of EVENING] by (simp add: doEveningRoutine_def)
  moreover have "?m = stored MORNING \<longrightarrow> loop env s = doDayRoutine env ?s1"
    using r [of MORNING] by simp
  moreover have "?m = stored DAY \<longrightarrow> loop env s = doDayRoutine env ?s1"
    using r [of DAY] by simp
  moreover have "doEveningRoutine env s = doNightRoutine env s"
    by (simp add: doEveningRoutine_def)
  moreover have "doDayRoutine env s =
       (if digital env PIN_UPPER_SENSOR (elapsed s) \<or> digital env PIN_LOWER_SENSOR (elapsed s)
        then delay 5000 (doPink 80 (snd (either_sensor env s)))
        else snd (either_sensor env s))"
    using doDayRoutine_eq [of env s] by (simp only: fst_either_sensor)
  ultimately show ?thesis
    using loop_enters_no_rainbow [of env s] unfolding Let_def by blast
qed

lemma nextMode_at_200:
  "nextMode (stored NIGHT) 200 = stored NIGHT"
  "nextMode (stored MORNING) 200 = stored MORNING"
  "nextMode (stored EVENING) 200 = stored EVENING"
  "nextMode (stored DAY) 400 = stored DAY"
  by (simp_all add: nextMode_def enumerator_def thresholds)

theorem loop_dispatch_witness:
  "(let env = \<lparr>digital = (\<lambda>pin t. True), analog = (\<lambda>t. 200)\<rparr>;
        bright = \<lparr>digital = (\<lambda>pin t. True), analog = (\<lambda>t. 400)\<rparr>;
        after = (\<lambda>md a. (emit (AnalogRead a) power_on)\<lparr>mode := stored md\<rparr>)
    in loop env (power_on\<lparr>mode := stored NIGHT\<rparr>) = doNightRoutine env (after NIGHT 200)
       \<and> loop env (power_on\<lparr>mode := stored EVENING\<rparr>) = doNightRoutine env (after EVENING 200)
       \<and> loop env (power_on\<lparr>mode := stored MORNING\<rparr>) = doDayRoutine env (after MORNING 200)
       \<and> loop bright (power_on\<lparr>mode := stored DAY\<rparr>) = doDayRoutine bright (after DAY 400)
       \<and> doDayRoutine env (after MORNING 200) =
           delay 5000 (doPink 80 (snd (either_sensor env (after MORNING 200)))))"
proof -
  let ?env = "\<lparr>digital = (\<lambda>pin t. True), analog = (\<lambda>t. 200)\<rparr> :: sensors"
  let ?bright = "\<lparr>digital = (\<lambda>pin t. True), analog = (\<lambda>t. 400)\<rparr> :: sensors"
  let ?after = "\<lambda>md a. (emit (AnalogRead a) power_on)\<lparr>mode := stored md\<rparr>"
  have m0: "elapsed power_on = 0" by (simp add: power_on_def)
  have n: "loop ?env (power_on\<lparr>mode := stored NIGHT\<rparr>) = doNightRoutine ?env (?after NIGHT 200)"
    using loop_dispatch [of ?env "power_on\<lparr>mode := stored NIGHT\<rparr>"]
    by (simp add: Let_def nextMode_at_200 emit_def del: stored.simps)
  have e: "loop ?env (power_on\<lparr>mode := stored EVENING\<rparr>) = doNightRoutine ?env (?after EVENING 200)"
    using loop_dispatch [of ?env "power_on\<lparr>mode := stored EVENING\<rparr>"]
    by (simp add: Let_def nextMode_at_200 emit_def doEveningRoutine_def del: stored.simps)
  have m: "loop ?env (power_on\<lparr>mode := stored MORNING\<rparr>) = doDayRoutine ?env (?after MORNING 200)"
    using loop_dispatch [of ?env "power_on\<lparr>mode := stored MORNING\<rparr>"]
    by (simp add: Let_def nextMode_at_200 emit_def del: stored.simps)
  have d: "loop ?bright (power_on\<lparr>mode := stored DAY\<rparr>) = doDayRoutine ?bright (?after DAY 400)"
    using loop_dispatch [of ?bright "power_on\<lparr>mode := stored DAY\<rparr>"]
    by (simp add: Let_def nextMode_at_200 emit_def del: stored.simps)
  have p: "doDayRoutine ?env (?after MORNING 200) =
           delay 5000 (doPink 80 (snd (either_sensor ?env (?after MORNING 200))))"
    using loop_dispatch [of ?env "?after MORNING 200"]
    by (simp add: Let_def del: stored.simps)
  from n e m d p show ?thesis unfolding Let_def by blast
qed

end
